theory Spec2Isabelle
  imports Main
begin

section \<open>TVAgent: the connection-lifecycle manager\<close>

text \<open>
  A shallow embedding of the agent in \<^verbatim>\<open>src/unnamed/part_000\<close> (capped exponential
  backoff, bounded attempts, health check) and, further down, of its older sibling
  \<^verbatim>\<open>src/tvagent.js\<close>. The JavaScript globals become the fields of a record, every
  function and every event listener becomes a function from state to state, and the
  Node runtime (outstanding timers, pending HTTP requests, the exit status) is part of
  the state. What a handler does to the outside world is appended to a trace.
\<close>

subsection \<open>JavaScript values\<close>

text \<open>
  \<open>JSON.parse\<close> yields \<open>null\<close>, booleans, numbers, strings, arrays and plain objects.
  Numbers are modelled as integers. An object is the list of its own properties.
\<close>

datatype json =
    JNull
  | JBool bool
  | JNum int
  | JStr string
  | JArr "json list"
  | JObj "(string \<times> json) list"

text \<open>
  The result of a property read: \<open>undefined\<close>, a value that came from JSON or from the
  command table, or a member of \<open>Object.prototype\<close> found through the prototype chain
  (a built-in function, or the prototype object itself for \<open>__proto__\<close>).
\<close>

datatype jsval = Undefined | Val json | Inherited string

datatype exn = SyntaxError | TypeError

text \<open>The own property names of \<open>Object.prototype\<close>.\<close>

definition Object_prototype :: "string list" where
  "Object_prototype =
     [''constructor'', ''__defineGetter__'', ''__defineSetter__'', ''hasOwnProperty'',
      ''__lookupGetter__'', ''__lookupSetter__'', ''isPrototypeOf'',
      ''propertyIsEnumerable'', ''toString'', ''valueOf'', ''__proto__'',
      ''toLocaleString'']"

text \<open>
  \<open>data.name\<close> for a value \<open>data\<close> returned by \<open>JSON.parse\<close>. Reading a property of
  \<open>null\<close> throws a TypeError. On an object an own property wins, then the prototype
  chain is searched. The handlers read \<open>type\<close>, \<open>target\<close> and \<open>command\<close> only, none
  of which is defined on the prototypes of booleans, numbers, strings or arrays.
\<close>

fun get_prop :: "json \<Rightarrow> string \<Rightarrow> exn + jsval" where
  "get_prop JNull name = Inl TypeError"
| "get_prop (JObj props) name =
     (case map_of props name of
        Some v \<Rightarrow> Inr (Val v)
      | None \<Rightarrow> Inr (if name \<in> set Object_prototype then Inherited name else Undefined))"
| "get_prop other name = Inr Undefined"

text \<open>Decimal digits of a number, as \<open>Number.prototype.toString\<close> prints an integer.\<close>

fun digits :: "nat \<Rightarrow> string" where
  "digits n =
     (if n < 10 then [''0123456789'' ! n]
      else digits (n div 10) @ [''0123456789'' ! (n mod 10)])"

declare digits.simps [simp del]

definition show_int :: "int \<Rightarrow> string" where
  "show_int i = (if i < 0 then CHR ''-'' # digits (nat (- i)) else digits (nat i))"

text \<open>
  \<open>ToString\<close> on a JSON value. An array is joined with commas, \<open>null\<close> elements
  printing as the empty string. A plain object prints as \<open>[object Object]\<close> through the
  inherited \<open>toString\<close>; an own property called \<open>toString\<close> shadows it with a value
  that is not callable, the inherited \<open>valueOf\<close> returns the object itself, and the
  conversion throws a TypeError.
\<close>

fun ToString :: "json \<Rightarrow> exn + string"
  and join :: "json list \<Rightarrow> exn + string" where
  "ToString JNull = Inr ''null''"
| "ToString (JBool b) = Inr (if b then ''true'' else ''false'')"
| "ToString (JNum i) = Inr (show_int i)"
| "ToString (JStr s) = Inr s"
| "ToString (JArr xs) = join xs"
| "ToString (JObj props) =
     (if ''toString'' \<in> fst ` set props then Inl TypeError else Inr ''[object Object]'')"
| "join [] = Inr []"
| "join (x # xs) =
     (case (if x = JNull then Inr [] else ToString x) of
        Inl e \<Rightarrow> Inl e
      | Inr s \<Rightarrow>
          (if xs = [] then Inr s
           else (case join xs of Inl e \<Rightarrow> Inl e | Inr r \<Rightarrow> Inr (s @ '','' @ r))))"

text \<open>
  \<open>ToPropertyKey\<close>: the string under which \<open>obj[v]\<close> looks \<open>v\<close> up. A built-in
  function prints as native code under its own name; the function found under
  \<open>constructor\<close> is called \<open>Object\<close>.
\<close>

fun to_property_key :: "jsval \<Rightarrow> exn + string" where
  "to_property_key Undefined = Inr ''undefined''"
| "to_property_key (Val j) = ToString j"
| "to_property_key (Inherited name) =
     Inr (if name = ''__proto__'' then ''[object Object]''
          else ''function '' @ (if name = ''constructor'' then ''Object'' else name) @
               ''() { [native code] }'')"

text \<open>\<open>ToBoolean\<close>, as \<open>||\<close> applies it to its left operand.\<close>

fun truthy :: "jsval \<Rightarrow> bool" where
  "truthy Undefined = False"
| "truthy (Val JNull) = False"
| "truthy (Val (JBool b)) = b"
| "truthy (Val (JNum i)) = (i \<noteq> 0)"
| "truthy (Val (JStr s)) = (s \<noteq> [])"
| "truthy (Val (JArr xs)) = True"
| "truthy (Val (JObj props)) = True"
| "truthy (Inherited name) = True"

subsection \<open>Constants\<close>

definition PING_INTERVAL :: int where
  "PING_INTERVAL = 60 * 1000"

definition RECONNECT_DELAY_MIN :: int where
  "RECONNECT_DELAY_MIN = 5000"

definition RECONNECT_DELAY_MAX :: int where
  "RECONNECT_DELAY_MAX = 300000"

definition MAX_RECONNECT_ATTEMPTS :: nat where
  "MAX_RECONNECT_ATTEMPTS = 100"

definition cabangId :: json where
  "cabangId = JNum 1"

definition COMMAND_MAP :: "(string \<times> int) list" where
  "COMMAND_MAP =
     [(''sleep'', 223), (''wake'', 224), (''power'', 26),
      (''volup'', 24), (''voldown'', 25), (''mute'', 164)]"

text \<open>
  \<open>COMMAND_MAP[command]\<close>: \<open>COMMAND_MAP\<close> is an object literal, so a key that is not
  one of its own six is looked up on \<open>Object.prototype\<close>.
\<close>

definition command_lookup :: "string \<Rightarrow> jsval" where
  "command_lookup key =
     (case map_of COMMAND_MAP key of
        Some code \<Rightarrow> Val (JNum code)
      | None \<Rightarrow> if key \<in> set Object_prototype then Inherited key else Undefined)"

subsection \<open>The device, the transport, timers and effects\<close>

text \<open>The values computed once at start-up by \<open>getDeviceId\<close>, \<open>getProp\<close>, \<open>getLocalIp\<close>.\<close>

record device =
  tvId :: string
  deviceModel :: string
  modelTv :: string
  localIp :: string

record identity =
  tv_id :: string
  model :: string
  ip :: string
  modeltv :: string
  cabangid :: json

datatype out_msg =
    MsgRegister identity
  | MsgPing string string int
  | MsgConfirm string jsval string int

datatype ready_state = CONNECTING | OPEN | CLOSING | CLOSED

record socket =
  readyState :: ready_state
  listeners :: bool

datatype timer_kind = PingT | HealthT | ReconnectT

text \<open>
  A timer object as \<open>setInterval\<close> and \<open>setTimeout\<close> return it. Its kind says which
  callback it runs; the serial number tells the timers of one kind apart.
\<close>

record timer =
  kind :: timer_kind
  serial :: nat
  period :: int

datatype effect =
    Exec jsval
  | Send out_msg
  | PongFrame
  | HttpPost identity
  | Arm timer
  | Cancel timer
  | Expired timer
  | NewSocket
  | CloseSocket
  | Terminate
  | Unlink
  | WakeUnlock
  | Exit nat

text \<open>
  The inbound frame, up to what \<open>JSON.parse\<close> makes of it: a syntax error, or the
  decoded value.
\<close>

datatype payload = Malformed | Wellformed json

fun JSON_parse :: "payload \<Rightarrow> exn + json" where
  "JSON_parse Malformed = Inl SyntaxError"
| "JSON_parse (Wellformed j) = Inr j"

subsection \<open>The state of the agent\<close>

text \<open>
  The state of \<^verbatim>\<open>src/tvagent.js\<close>. The first five fields are the module's \<open>let\<close>
  variables. The others belong to the runtime: the timers that are outstanding, how
  many timers of a kind were ever armed, the HTTP registrations in flight, the lock
  file, the exit status once the process has ended, and the trace of effects.
\<close>

record legacy =
  ws :: "socket option"
  pingTimer :: "timer option"
  reconnectTimer :: "timer option"
  isReconnecting :: bool
  isRegistered :: bool
  timers :: "timer list"
  pingsArmed :: nat
  reconnectsArmed :: nat
  pendingPosts :: nat
  lockFile :: bool
  exited :: "nat option"
  trace :: "effect list"

text \<open>
  \<^verbatim>\<open>src/unnamed/part_000\<close> adds three variables, and with them health-check timers.
  The functions that read the same in both files (\<open>cleanup\<close>, \<open>sendKey\<close>,
  \<open>registerToServer\<close>) are defined once, for either state.
\<close>

record agent = legacy +
  reconnectAttempts :: nat
  lastActivityTime :: int
  healthCheckInterval :: "timer option"
  healthsArmed :: nat

definition emit :: "effect \<Rightarrow> 'a legacy_scheme \<Rightarrow> 'a legacy_scheme" where
  "emit e st = st\<lparr>trace := trace st @ [e]\<rparr>"

text \<open>\<open>clearInterval\<close> and \<open>clearTimeout\<close>: the timer is no longer outstanding.\<close>

definition clearTimer :: "timer \<Rightarrow> 'a legacy_scheme \<Rightarrow> 'a legacy_scheme" where
  "clearTimer t st = emit (Cancel t) (st\<lparr>timers := filter (\<lambda>u. u \<noteq> t) (timers st)\<rparr>)"

definition arm :: "timer \<Rightarrow> 'a legacy_scheme \<Rightarrow> 'a legacy_scheme" where
  "arm t st = emit (Arm t) (st\<lparr>timers := timers st @ [t]\<rparr>)"

text \<open>\<open>ws.close()\<close> and \<open>ws.terminate()\<close> leave a socket that is not yet closed closing.\<close>

definition shut :: "socket \<Rightarrow> socket" where
  "shut s = (if readyState s = CLOSED then s else s\<lparr>readyState := CLOSING\<rparr>)"

definition cleanup :: "'a legacy_scheme \<Rightarrow> 'a legacy_scheme" where
  "cleanup st =
     (let st1 = (case pingTimer st of Some t \<Rightarrow> clearTimer t st | None \<Rightarrow> st);
          st2 = (case reconnectTimer st1 of Some t \<Rightarrow> clearTimer t st1 | None \<Rightarrow> st1);
          st3 = (case ws st2 of
                   None \<Rightarrow> st2
                 | Some s \<Rightarrow>
                     (let s1 = s\<lparr>listeners := False\<rparr> in
                      if readyState s1 = OPEN \<or> readyState s1 = CONNECTING
                      then emit CloseSocket (st2\<lparr>ws := Some (shut s1)\<rparr>)
                      else st2\<lparr>ws := Some s1\<rparr>));
          st4 = (if lockFile st3 then emit Unlink (st3\<lparr>lockFile := False\<rparr>) else st3)
      in emit WakeUnlock st4)"

text \<open>
  \<open>process.exit(code)\<close>: the \<open>exit\<close> listener runs \<open>cleanup\<close>, then the process is gone.
\<close>

definition process_exit :: "nat \<Rightarrow> 'a legacy_scheme \<Rightarrow> 'a legacy_scheme" where
  "process_exit code st = emit (Exit code) ((cleanup st)\<lparr>exited := Some code\<rparr>)"

definition sendKey :: "jsval \<Rightarrow> 'a legacy_scheme \<Rightarrow> exn + 'a legacy_scheme" where
  "sendKey command st =
     (case to_property_key command of
        Inl e \<Rightarrow> Inl e
      | Inr key \<Rightarrow>
          (let found = command_lookup key;
               code = (if truthy found then found else command)
           in Inr (emit (Exec code) st)))"

text \<open>
  \<open>Math.min(RECONNECT_DELAY_MIN * Math.pow(2, reconnectAttempts - 1),
  RECONNECT_DELAY_MAX)\<close>. The product is exact in floating point until it overflows
  to infinity, far above the cap. At zero attempts the power is a half.
\<close>

definition backoff_delay :: "nat \<Rightarrow> int" where
  "backoff_delay attempts =
     min (if attempts = 0 then RECONNECT_DELAY_MIN div 2
          else RECONNECT_DELAY_MIN * 2 ^ (attempts - 1))
         RECONNECT_DELAY_MAX"

definition scheduleReconnect :: "agent \<Rightarrow> agent" where
  "scheduleReconnect st =
     (if isReconnecting st then st
      else if reconnectAttempts st \<ge> MAX_RECONNECT_ATTEMPTS
      then process_exit 1 (cleanup st)
      else
        (let st1 = st\<lparr>isReconnecting := True,
                        reconnectAttempts := reconnectAttempts st + 1\<rparr>;
             delay = backoff_delay (reconnectAttempts st1);
             st2 = (case pingTimer st1 of
                      Some t \<Rightarrow> (clearTimer t st1)\<lparr>pingTimer := None\<rparr>
                    | None \<Rightarrow> st1);
             st3 = (case healthCheckInterval st2 of
                      Some t \<Rightarrow> (clearTimer t st2)\<lparr>healthCheckInterval := None\<rparr>
                    | None \<Rightarrow> st2);
             st4 = (case reconnectTimer st3 of
                      Some t \<Rightarrow> clearTimer t st3
                    | None \<Rightarrow> st3);
             t = \<lparr>kind = ReconnectT, serial = reconnectsArmed st4, period = delay\<rparr>
         in (arm t st4)\<lparr>reconnectTimer := Some t,
                         reconnectsArmed := reconnectsArmed st4 + 1\<rparr>))"

definition identity_of :: "device \<Rightarrow> json \<Rightarrow> identity" where
  "identity_of dev cabang =
     \<lparr>tv_id = tvId dev, model = deviceModel dev, ip = localIp dev,
      modeltv = modelTv dev, cabangid = cabang\<rparr>"

text \<open>
  \<open>registerToServer\<close> up to its \<open>await\<close>: the request is on its way. Its outcome arrives
  later, as an event of its own. The branch id is the constant \<open>cabangId\<close> of the file.
\<close>

definition registerToServer :: "device \<Rightarrow> json \<Rightarrow> 'a legacy_scheme \<Rightarrow> 'a legacy_scheme" where
  "registerToServer dev cabang st =
     (if isRegistered st then st
      else emit (HttpPost (identity_of dev cabang))
             (st\<lparr>pendingPosts := pendingPosts st + 1\<rparr>))"

definition registration_settled :: "bool \<Rightarrow> 'a legacy_scheme \<Rightarrow> 'a legacy_scheme" where
  "registration_settled ok st =
     (let st1 = st\<lparr>pendingPosts := pendingPosts st - 1\<rparr>
      in if ok then st1\<lparr>isRegistered := True\<rparr> else st1)"

text \<open>
  \<open>connect\<close>. The flag says whether \<open>new WebSocket\<close> throws. The listeners are attached
  to the new socket before control returns to the event loop.
\<close>

definition connect :: "bool \<Rightarrow> agent \<Rightarrow> agent" where
  "connect ctor_throws st =
     (let st1 = (case ws st of
                   None \<Rightarrow> st
                 | Some s \<Rightarrow>
                     (if readyState s = OPEN \<or> readyState s = CONNECTING
                      then emit CloseSocket (st\<lparr>ws := None\<rparr>)
                      else st\<lparr>ws := None\<rparr>))
      in if ctor_throws then scheduleReconnect st1
         else emit NewSocket
                (st1\<lparr>ws := Some \<lparr>readyState = CONNECTING, listeners = True\<rparr>\<rparr>))"

subsection \<open>The listeners and the timer callbacks\<close>

definition on_open :: "device \<Rightarrow> int \<Rightarrow> agent \<Rightarrow> agent" where
  "on_open dev now st =
     (let st1 = st\<lparr>reconnectAttempts := 0, isReconnecting := False,
                    lastActivityTime := now\<rparr>;
          st2 = emit (Send (MsgRegister (identity_of dev cabangId))) st1;
          st3 = registerToServer dev cabangId st2;
          st4 = (case pingTimer st3 of
                   Some t \<Rightarrow> (clearTimer t st3)\<lparr>pingTimer := None\<rparr>
                 | None \<Rightarrow> st3);
          st5 = (case healthCheckInterval st4 of
                   Some t \<Rightarrow> (clearTimer t st4)\<lparr>healthCheckInterval := None\<rparr>
                 | None \<Rightarrow> st4);
          p = \<lparr>kind = PingT, serial = pingsArmed st5, period = PING_INTERVAL\<rparr>;
          st6 = (arm p st5)\<lparr>pingTimer := Some p, pingsArmed := pingsArmed st5 + 1\<rparr>;
          h = \<lparr>kind = HealthT, serial = healthsArmed st6, period = PING_INTERVAL * 2\<rparr>
      in (arm h st6)\<lparr>healthCheckInterval := Some h,
                      healthsArmed := healthsArmed st6 + 1\<rparr>)"

definition is_open :: "'a legacy_scheme \<Rightarrow> bool" where
  "is_open st = (case ws st of None \<Rightarrow> False | Some s \<Rightarrow> readyState s = OPEN)"

text \<open>The callback of the ping interval; the flag says whether \<open>ws.send\<close> throws.\<close>

definition ping_tick :: "device \<Rightarrow> int \<Rightarrow> string \<Rightarrow> bool \<Rightarrow> agent \<Rightarrow> agent" where
  "ping_tick dev now addr send_throws st =
     (if is_open st then
        (if send_throws then scheduleReconnect st
         else (emit (Send (MsgPing (tvId dev) addr now)) st)\<lparr>lastActivityTime := now\<rparr>)
      else scheduleReconnect st)"

definition terminate :: "agent \<Rightarrow> agent" where
  "terminate st =
     (case ws st of
        None \<Rightarrow> st
      | Some s \<Rightarrow> emit Terminate (st\<lparr>ws := Some (shut s)\<rparr>))"

definition health_tick :: "int \<Rightarrow> agent \<Rightarrow> agent" where
  "health_tick now st =
     (let idleTime = now - lastActivityTime st
      in if idleTime > PING_INTERVAL * 3 then scheduleReconnect (terminate st) else st)"

definition reconnect_tick :: "bool \<Rightarrow> agent \<Rightarrow> agent" where
  "reconnect_tick ctor_throws st = connect ctor_throws (st\<lparr>isReconnecting := False\<rparr>)"

text \<open>
  The body of the \<open>try\<close> in the message listener. An exception leaves it before any
  effect has happened, so the \<open>catch\<close> resumes from the state at the \<open>try\<close>.
\<close>

definition dispatch :: "device \<Rightarrow> int \<Rightarrow> payload \<Rightarrow> agent \<Rightarrow> exn + agent" where
  "dispatch dev now msg st =
     (case JSON_parse msg of
        Inl e \<Rightarrow> Inl e
      | Inr data \<Rightarrow>
     (case get_prop data ''type'' of
        Inl e \<Rightarrow> Inl e
      | Inr ty \<Rightarrow>
          if ty = Val (JStr ''welcome'') then Inr st
          else if ty = Val (JStr ''pong'') then Inr st
          else
     (case get_prop data ''target'' of
        Inl e \<Rightarrow> Inl e
      | Inr target \<Rightarrow>
          if target = Val (JStr (tvId dev)) \<or> target = Val (JStr ''all'') then
     (case get_prop data ''command'' of
        Inl e \<Rightarrow> Inl e
      | Inr command \<Rightarrow>
     (case sendKey command st of
        Inl e \<Rightarrow> Inl e
      | Inr st1 \<Rightarrow>
          if is_open st1
          then Inr (emit (Send (MsgConfirm (tvId dev) command ''ok'' now)) st1)
          else Inr st1))
          else Inr st)))"

definition on_message :: "device \<Rightarrow> int \<Rightarrow> payload \<Rightarrow> agent \<Rightarrow> agent" where
  "on_message dev now msg st =
     (let st1 = st\<lparr>lastActivityTime := now\<rparr>
      in case dispatch dev now msg st1 of Inl e \<Rightarrow> st1 | Inr st2 \<Rightarrow> st2)"

definition on_close :: "agent \<Rightarrow> agent" where
  "on_close st = scheduleReconnect st"

definition on_error :: "agent \<Rightarrow> agent" where
  "on_error st = st"

definition on_ping :: "int \<Rightarrow> agent \<Rightarrow> agent" where
  "on_ping now st = emit PongFrame (st\<lparr>lastActivityTime := now\<rparr>)"

definition on_pong :: "int \<Rightarrow> agent \<Rightarrow> agent" where
  "on_pong now st = st\<lparr>lastActivityTime := now\<rparr>"

definition on_signal :: "agent \<Rightarrow> agent" where
  "on_signal st = process_exit 0 (cleanup st)"

subsection \<open>Events\<close>

text \<open>
  What the event loop can deliver: the events of the current socket, the expiry of an
  outstanding timer (named by kind and serial number), the outcome of a registration
  request, and a termination signal. Each event carries what its handler reads from
  the environment: the clock, the address \<open>getLocalIp\<close> returns, whether \<open>ws.send\<close> or
  \<open>new WebSocket\<close> throws. \<open>PeerClosing\<close> is the transport starting to close, which
  raises no event by itself.
\<close>

datatype event =
    WsOpen int
  | WsMessage int payload
  | WsClose
  | WsError
  | WsPing int
  | WsPong int
  | PeerClosing
  | PingFires nat int string bool
  | HealthFires nat int
  | ReconnectFires nat bool
  | PostSettled bool
  | Signal

definition outstanding :: "timer_kind \<Rightarrow> nat \<Rightarrow> 'a legacy_scheme \<Rightarrow> timer option" where
  "outstanding k n st = find (\<lambda>t. kind t = k \<and> serial t = n) (timers st)"

text \<open>The socket whose listeners are attached, if there is one.\<close>

definition listening :: "'a legacy_scheme \<Rightarrow> socket option" where
  "listening st =
     (case ws st of None \<Rightarrow> None | Some s \<Rightarrow> if listeners s then Some s else None)"

text \<open>
  One turn of the event loop. An event that cannot occur in the state (no such timer
  outstanding, the socket in another state, the process gone) changes nothing. The
  \<open>ws\<close> library sets \<open>readyState\<close> before it emits \<open>open\<close> and \<open>close\<close>; an interval
  stays outstanding when it fires, a timeout does not.
\<close>

definition step :: "device \<Rightarrow> event \<Rightarrow> agent \<Rightarrow> agent" where
  "step dev ev st =
     (if exited st \<noteq> None then st
      else case ev of
        WsOpen now \<Rightarrow>
          (case listening st of
             Some s \<Rightarrow>
               if readyState s = CONNECTING
               then on_open dev now (st\<lparr>ws := Some (s\<lparr>readyState := OPEN\<rparr>)\<rparr>)
               else st
           | None \<Rightarrow> st)
      | WsMessage now msg \<Rightarrow>
          (case listening st of
             Some s \<Rightarrow>
               if readyState s = OPEN \<or> readyState s = CLOSING
               then on_message dev now msg st
               else st
           | None \<Rightarrow> st)
      | WsClose \<Rightarrow>
          (case listening st of
             Some s \<Rightarrow>
               if readyState s \<noteq> CLOSED
               then on_close (st\<lparr>ws := Some (s\<lparr>readyState := CLOSED\<rparr>)\<rparr>)
               else st
           | None \<Rightarrow> st)
      | WsError \<Rightarrow>
          (case listening st of
             Some s \<Rightarrow> if readyState s \<noteq> CLOSED then on_error st else st
           | None \<Rightarrow> st)
      | WsPing now \<Rightarrow>
          (case listening st of
             Some s \<Rightarrow>
               if readyState s = OPEN \<or> readyState s = CLOSING then on_ping now st else st
           | None \<Rightarrow> st)
      | WsPong now \<Rightarrow>
          (case listening st of
             Some s \<Rightarrow>
               if readyState s = OPEN \<or> readyState s = CLOSING then on_pong now st else st
           | None \<Rightarrow> st)
      | PeerClosing \<Rightarrow>
          (case ws st of
             Some s \<Rightarrow>
               if readyState s = OPEN then st\<lparr>ws := Some (s\<lparr>readyState := CLOSING\<rparr>)\<rparr>
               else st
           | None \<Rightarrow> st)
      | PingFires n now addr send_throws \<Rightarrow>
          (case outstanding PingT n st of
             Some t \<Rightarrow> ping_tick dev now addr send_throws st
           | None \<Rightarrow> st)
      | HealthFires n now \<Rightarrow>
          (case outstanding HealthT n st of
             Some t \<Rightarrow> health_tick now st
           | None \<Rightarrow> st)
      | ReconnectFires n ctor_throws \<Rightarrow>
          (case outstanding ReconnectT n st of
             Some t \<Rightarrow>
               reconnect_tick ctor_throws
                 (emit (Expired t) (st\<lparr>timers := filter (\<lambda>u. u \<noteq> t) (timers st)\<rparr>))
           | None \<Rightarrow> st)
      | PostSettled ok \<Rightarrow>
          (if pendingPosts st > 0 then registration_settled ok st else st)
      | Signal \<Rightarrow> on_signal st)"

definition run :: "device \<Rightarrow> event list \<Rightarrow> agent \<Rightarrow> agent" where
  "run dev evs st = foldl (\<lambda>s ev. step dev ev s) st evs"

text \<open>
  The module's top level: the variables are initialised, the lock file is written and
  \<open>connect()\<close> is called.
\<close>

definition init :: "int \<Rightarrow> agent" where
  "init t0 =
     \<lparr>ws = None, pingTimer = None, reconnectTimer = None, isReconnecting = False,
      isRegistered = False, timers = [], pingsArmed = 0, reconnectsArmed = 0,
      pendingPosts = 0, lockFile = True, exited = None, trace = [],
      reconnectAttempts = 0, lastActivityTime = t0, healthCheckInterval = None,
      healthsArmed = 0\<rparr>"

definition start :: "int \<Rightarrow> bool \<Rightarrow> agent" where
  "start t0 ctor_throws = connect ctor_throws (init t0)"

text \<open>A device for the worked examples.\<close>

definition tv :: device where
  "tv = \<lparr>tvId = ''TV-ABCD1234'', deviceModel = ''Smart TV'', modelTv = ''TCL'',
         localIp = ''192.168.1.20''\<rparr>"

section \<open>The older variant\<close>


definition legacy_cabangId :: json where
  "legacy_cabangId = JStr ''CABANG-001''"














section \<open>Notions for the statements and the proofs\<close>

subsection \<open>Timers in the trace\<close>

text \<open>
  The timers of one kind among a list of timers; the timers that are outstanding after a
  timer operation; and the property that, replaying a trace from a given list of
  outstanding timers, every \<open>Arm\<close> finds none of its own kind outstanding.
\<close>

definition of_kind :: "timer_kind \<Rightarrow> timer list \<Rightarrow> timer list" where
  "of_kind k ts = filter (\<lambda>t. kind t = k) ts"

fun track :: "timer list \<Rightarrow> effect \<Rightarrow> timer list" where
  "track ts (Arm t) = ts @ [t]"
| "track ts (Cancel t) = filter (\<lambda>u. u \<noteq> t) ts"
| "track ts (Expired t) = filter (\<lambda>u. u \<noteq> t) ts"
| "track ts e = ts"

fun arms_clean :: "timer list \<Rightarrow> effect list \<Rightarrow> bool" where
  "arms_clean ts [] = True"
| "arms_clean ts (Arm t # es) = (of_kind (kind t) ts = [] \<and> arms_clean (ts @ [t]) es)"
| "arms_clean ts (e # es) = arms_clean (track ts e) es"

fun silent :: "effect \<Rightarrow> bool" where
  "silent (Arm t) = False"
| "silent (Cancel t) = False"
| "silent (Expired t) = False"
| "silent e = True"

subsection \<open>Abbreviations for the handlers' results\<close>

text \<open>
  What \<open>if (timer) clearTimeout(timer)\<close> leaves in the trace and among the outstanding
  timers; what \<open>cleanup\<close> does to a socket; the timers that the next \<open>scheduleReconnect\<close>
  and \<open>open\<close> arm; the effects of \<open>registerToServer\<close> and of the message listeners.
\<close>

definition cancel_of :: "timer option \<Rightarrow> effect list" where
  "cancel_of v = (case v of None \<Rightarrow> [] | Some t \<Rightarrow> [Cancel t])"

definition without :: "timer option \<Rightarrow> timer list \<Rightarrow> timer list" where
  "without v ts = filter (\<lambda>u. Some u \<noteq> v) ts"

definition detach :: "socket \<Rightarrow> socket" where
  "detach s =
     \<lparr>readyState = (if readyState s = OPEN \<or> readyState s = CONNECTING then CLOSING
                    else readyState s),
      listeners = False\<rparr>"

definition close_of :: "socket option \<Rightarrow> effect list" where
  "close_of w =
     (case w of
        None \<Rightarrow> []
      | Some s \<Rightarrow> if readyState s = OPEN \<or> readyState s = CONNECTING then [CloseSocket] else [])"

definition fresh_socket :: socket where
  "fresh_socket = \<lparr>readyState = CONNECTING, listeners = True\<rparr>"

definition next_reconnect :: "agent \<Rightarrow> timer" where
  "next_reconnect st =
     \<lparr>kind = ReconnectT, serial = reconnectsArmed st,
      period = backoff_delay (reconnectAttempts st + 1)\<rparr>"

definition next_ping :: "'a legacy_scheme \<Rightarrow> timer" where
  "next_ping st = \<lparr>kind = PingT, serial = pingsArmed st, period = PING_INTERVAL\<rparr>"

definition next_health :: "agent \<Rightarrow> timer" where
  "next_health st = \<lparr>kind = HealthT, serial = healthsArmed st, period = PING_INTERVAL * 2\<rparr>"

definition post_of :: "device \<Rightarrow> json \<Rightarrow> bool \<Rightarrow> effect list" where
  "post_of dev cabang registered =
     (if registered then [] else [HttpPost (identity_of dev cabang)])"

definition command_effects :: "device \<Rightarrow> int \<Rightarrow> json \<Rightarrow> bool \<Rightarrow> effect list" where
  "command_effects dev now data opened =
     (case get_prop data ''target'' of
        Inl e \<Rightarrow> []
      | Inr target \<Rightarrow>
          if target = Val (JStr (tvId dev)) \<or> target = Val (JStr ''all'') then
            (case get_prop data ''command'' of
               Inl e \<Rightarrow> []
             | Inr command \<Rightarrow>
                 (case to_property_key command of
                    Inl e \<Rightarrow> []
                  | Inr key \<Rightarrow>
                      Exec (if truthy (command_lookup key) then command_lookup key
                            else command) #
                      (if opened then [Send (MsgConfirm (tvId dev) command ''ok'' now)]
                       else [])))
          else [])"

definition message_effects :: "device \<Rightarrow> int \<Rightarrow> payload \<Rightarrow> bool \<Rightarrow> effect list" where
  "message_effects dev now msg opened =
     (case JSON_parse msg of
        Inl e \<Rightarrow> []
      | Inr data \<Rightarrow>
          (case get_prop data ''type'' of
             Inl e \<Rightarrow> []
           | Inr ty \<Rightarrow>
               if ty = Val (JStr ''welcome'') \<or> ty = Val (JStr ''pong'') then []
               else command_effects dev now data opened))"

definition legacy_message_effects :: "device \<Rightarrow> int \<Rightarrow> payload \<Rightarrow> bool \<Rightarrow> effect list" where
  "legacy_message_effects dev now msg opened =
     (case JSON_parse msg of
        Inl e \<Rightarrow> []
      | Inr data \<Rightarrow> command_effects dev now data opened)"

subsection \<open>Registration requests in the trace\<close>

text \<open>The number of HTTP registration requests among the effects.\<close>

fun is_post :: "effect \<Rightarrow> bool" where
  "is_post (HttpPost body) = True"
| "is_post e = False"

definition posts :: "effect list \<Rightarrow> nat" where
  "posts es = length (filter is_post es)"

subsection \<open>Invariants\<close>

text \<open>
  A variable owns the timers of its kind when none is outstanding, or the only one
  outstanding is the one the variable holds. \<open>timers_ok\<close>: each of the three variables
  owns its kind, and the trace accounts for the outstanding timers. \<open>life_ok\<close>: the
  attempts are bounded; a pending reconnect timer comes with the flag set, no socket
  being connected and no ping or health-check timer; a ping or health-check timer
  comes with a socket past connecting, the flag clear and the counter at zero; and a
  process that ended with status 1 has nothing left.
\<close>

definition owns :: "timer option \<Rightarrow> timer list \<Rightarrow> bool" where
  "owns v xs = (xs = [] \<or> (\<exists>t. v = Some t \<and> xs = [t]))"

definition timers_ok :: "agent \<Rightarrow> bool" where
  "timers_ok st =
     (owns (pingTimer st) (of_kind PingT (timers st)) \<and>
      owns (healthCheckInterval st) (of_kind HealthT (timers st)) \<and>
      owns (reconnectTimer st) (of_kind ReconnectT (timers st)) \<and>
      foldl track [] (trace st) = timers st \<and>
      arms_clean [] (trace st))"

definition not_connecting :: "'a legacy_scheme \<Rightarrow> bool" where
  "not_connecting st = (case ws st of None \<Rightarrow> True | Some s \<Rightarrow> readyState s \<noteq> CONNECTING)"

definition torn_down :: "'a legacy_scheme \<Rightarrow> bool" where
  "torn_down st =
     (timers st = [] \<and> \<not> lockFile st \<and>
      (case ws st of
         None \<Rightarrow> True
       | Some s \<Rightarrow> \<not> listeners s \<and> readyState s \<noteq> OPEN \<and> readyState s \<noteq> CONNECTING))"

definition life_ok :: "agent \<Rightarrow> bool" where
  "life_ok st =
     (reconnectAttempts st \<le> MAX_RECONNECT_ATTEMPTS \<and>
      (of_kind ReconnectT (timers st) \<noteq> [] \<longrightarrow>
         isReconnecting st \<and> not_connecting st \<and>
         of_kind PingT (timers st) = [] \<and> of_kind HealthT (timers st) = []) \<and>
      (of_kind PingT (timers st) \<noteq> [] \<or> of_kind HealthT (timers st) \<noteq> [] \<longrightarrow>
         ws st \<noteq> None \<and> not_connecting st \<and> \<not> isReconnecting st \<and>
         reconnectAttempts st = 0) \<and>
      (exited st = Some 1 \<longrightarrow> torn_down st))"

definition sound :: "agent \<Rightarrow> bool" where
  "sound st = (timers_ok st \<and> life_ok st)"

subsection \<open>A streak of failed attempts\<close>

text \<open>
  The connection fails \<open>n\<close> times in a row: the socket closes before it opens, and
  the reconnect timer fires. After that the agent is waiting for a new socket to
  connect, with \<open>n\<close> attempts counted.
\<close>

definition losing_streak :: "nat \<Rightarrow> event list" where
  "losing_streak n = concat (map (\<lambda>i. [WsClose, ReconnectFires i False]) [0..<n])"

definition waiting_to_connect :: "nat \<Rightarrow> agent \<Rightarrow> bool" where
  "waiting_to_connect n s =
     (ws s = Some fresh_socket \<and> \<not> isReconnecting s \<and> reconnectAttempts s = n \<and>
      exited s = None \<and> timers s = [] \<and> reconnectsArmed s = n \<and>
      pingTimer s = None \<and> healthCheckInterval s = None)"

subsection \<open>A reconnect that is pending\<close>

text \<open>
  Whether an event is the expiry of the reconnect timer with a given serial number.
  A reconnect is pending when that timer is the only reconnect timer outstanding and
  the flag is set, or the process has ended meanwhile; the count of reconnect timers
  armed so far is recorded.
\<close>

fun fires_reconnect :: "nat \<Rightarrow> event \<Rightarrow> bool" where
  "fires_reconnect k (ReconnectFires n c) = (n = k)"
| "fires_reconnect k ev = False"

definition reconnect_pending :: "nat \<Rightarrow> nat \<Rightarrow> agent \<Rightarrow> bool" where
  "reconnect_pending k armed st =
     (sound st \<and> reconnectsArmed st = armed \<and>
      (exited st \<noteq> None \<or>
       (isReconnecting st \<and> (\<exists>r. of_kind ReconnectT (timers st) = [r] \<and> serial r = k))))"

text \<open>Every health-check timer outstanding has the period \<open>PING_INTERVAL * 2\<close>.\<close>

definition health_period_ok :: "agent \<Rightarrow> bool" where
  "health_period_ok st =
     list_all (\<lambda>t. kind t = HealthT \<longrightarrow> period t = PING_INTERVAL * 2) (timers st)"

text \<open>
  While the process runs, no reconnect is pending and the socket is past connecting
  (the connection is open, or the transport has begun to close without \<open>close\<close> having
  been delivered), a health-check timer is outstanding. Once a reconnect is scheduled
  the connection counts as lost, whatever the socket says.
\<close>

definition health_armed :: "agent \<Rightarrow> bool" where
  "health_armed st =
     (exited st = None \<and> \<not> isReconnecting st \<and> ws st \<noteq> None \<and> not_connecting st \<longrightarrow>
      of_kind HealthT (timers st) \<noteq> [])"

subsection \<open>Comparing the two variants\<close>

text \<open>
  The two files are compared on what they do, up to what they differ in by their
  constants and by the health check that only one of them has: in an effect the branch
  id of the registration message and request is blanked, the delay of a timer is set
  to zero, and the operations on health-check timers are left out.
\<close>

definition unperiod :: "timer \<Rightarrow> timer" where
  "unperiod t = t\<lparr>period := 0\<rparr>"

fun erase :: "effect \<Rightarrow> effect list" where
  "erase (Send (MsgRegister i)) = [Send (MsgRegister (i\<lparr>cabangid := JNull\<rparr>))]"
| "erase (HttpPost i) = [HttpPost (i\<lparr>cabangid := JNull\<rparr>)]"
| "erase (Arm t) = (if kind t = HealthT then [] else [Arm (unperiod t)])"
| "erase (Cancel t) = (if kind t = HealthT then [] else [Cancel (unperiod t)])"
| "erase (Expired t) = (if kind t = HealthT then [] else [Expired (unperiod t)])"
| "erase e = [e]"

definition observe :: "effect list \<Rightarrow> effect list" where
  "observe es = concat (map erase es)"






text \<open>
  The relation the comparison is proved with. On the side of \<^verbatim>\<open>src/tvagent.js\<close> no
  health-check timer is outstanding and \<open>reconnectTimer\<close> holds the outstanding
  reconnect timer, if there is one; on the other side the state satisfies the
  invariants above and \<open>healthCheckInterval\<close> holds a health-check timer or nothing.
\<close>

definition health_kind :: "timer option \<Rightarrow> bool" where
  "health_kind v = (case v of None \<Rightarrow> True | Some t \<Rightarrow> kind t = HealthT)"



section \<open>Properties\<close>

subsection \<open>Reconnect scheduling\<close>

lemma scheduleReconnect_pending: "isReconnecting st \<Longrightarrow> scheduleReconnect st = st"
  by (simp add: scheduleReconnect_def)

lemma scheduleReconnect_sets_pending:
  "reconnectAttempts st < MAX_RECONNECT_ATTEMPTS \<Longrightarrow> isReconnecting (scheduleReconnect st)"
  by (simp add: scheduleReconnect_def Let_def emit_def clearTimer_def arm_def
      split: option.splits)

lemma scheduleReconnect_arms:
  assumes "\<not> isReconnecting st" "reconnectAttempts st < MAX_RECONNECT_ATTEMPTS"
  shows "reconnectAttempts (scheduleReconnect st) = reconnectAttempts st + 1"
    and "reconnectTimer (scheduleReconnect st) =
           Some \<lparr>kind = ReconnectT, serial = reconnectsArmed st,
                 period = backoff_delay (reconnectAttempts st + 1)\<rparr>"
    and "\<lparr>kind = ReconnectT, serial = reconnectsArmed st,
          period = backoff_delay (reconnectAttempts st + 1)\<rparr>
           \<in> set (timers (scheduleReconnect st))"
  using assms
  by (simp_all add: scheduleReconnect_def Let_def emit_def clearTimer_def arm_def
      split: option.splits)

lemma backoff_delay_formula:
  "1 \<le> a \<Longrightarrow>
   backoff_delay a = min (RECONNECT_DELAY_MIN * 2 ^ (a - 1)) RECONNECT_DELAY_MAX"
  by (simp add: backoff_delay_def)

lemma backoff_delay_mono: "a \<le> b \<Longrightarrow> backoff_delay a \<le> backoff_delay b"
proof -
  assume ab: "a \<le> b"
  let ?f = "\<lambda>n::nat. if n = 0 then RECONNECT_DELAY_MIN div 2
                        else RECONNECT_DELAY_MIN * 2 ^ (n - 1)"
  have "?f a \<le> ?f b"
  proof (cases "a = 0")
    case True
    have q: "(1::int) \<le> 2 ^ (b - Suc 0)" by simp
    have "RECONNECT_DELAY_MIN div 2 \<le> RECONNECT_DELAY_MIN * 2 ^ (b - 1)"
      by (simp add: RECONNECT_DELAY_MIN_def) (insert q, linarith)
    with True show ?thesis by simp
  next
    case False
    have "(2::int) ^ (a - 1) \<le> 2 ^ (b - 1)"
      using ab by (intro power_increasing) auto
    then have "RECONNECT_DELAY_MIN * 2 ^ (a - 1) \<le> RECONNECT_DELAY_MIN * 2 ^ (b - 1)"
      by (simp add: RECONNECT_DELAY_MIN_def)
    with False ab show ?thesis by simp
  qed
  then show ?thesis
    unfolding backoff_delay_def by (rule min.mono) simp
qed

lemma backoff_delay_values:
  "map backoff_delay [1, 2, 3, 4, 5, 6, 7] =
     [5000, 10000, 20000, 40000, 80000, 160000, 300000]"
  by (simp add: backoff_delay_def RECONNECT_DELAY_MIN_def RECONNECT_DELAY_MAX_def)

lemma start_fresh:
  "\<not> isReconnecting (start t0 False)" "reconnectAttempts (start t0 False) = 0"
  by (simp_all add: start_def init_def connect_def emit_def)

text \<open>
  Claim C2. A call of \<open>scheduleReconnect\<close> that schedules (none pending, attempts below
  the bound) arms a timer whose delay is
  \<open>min (RECONNECT_DELAY_MIN * 2 ^ (attempts - 1)) RECONNECT_DELAY_MAX\<close> for the counter it
  has just incremented, which is at least one. The delay does not decrease as the
  attempts grow, and attempts one to seven wait 5000, 10000, 20000, 40000, 80000, 160000
  and 300000 milliseconds.
\<close>

theorem reconnect_delay:
  "(\<not> isReconnecting st \<and> reconnectAttempts st < MAX_RECONNECT_ATTEMPTS \<longrightarrow>
      (\<exists>t. reconnectTimer (scheduleReconnect st) = Some t \<and>
           t \<in> set (timers (scheduleReconnect st)) \<and>
           1 \<le> reconnectAttempts (scheduleReconnect st) \<and>
           period t = min (RECONNECT_DELAY_MIN * 2 ^ (reconnectAttempts (scheduleReconnect st) - 1))
                          RECONNECT_DELAY_MAX)) \<and>
   (1 \<le> a \<longrightarrow>
      backoff_delay a = min (RECONNECT_DELAY_MIN * 2 ^ (a - 1)) RECONNECT_DELAY_MAX) \<and>
   (1 \<le> a \<and> a \<le> b \<longrightarrow> backoff_delay a \<le> backoff_delay b) \<and>
   map backoff_delay [1, 2, 3, 4, 5, 6, 7] =
     [5000, 10000, 20000, 40000, 80000, 160000, 300000]"
proof (intro conjI impI)
  assume h: "\<not> isReconnecting st \<and> reconnectAttempts st < MAX_RECONNECT_ATTEMPTS"
  let ?t = "\<lparr>kind = ReconnectT, serial = reconnectsArmed st,
             period = backoff_delay (reconnectAttempts st + 1)\<rparr>"
  have "reconnectTimer (scheduleReconnect st) = Some ?t"
    and "?t \<in> set (timers (scheduleReconnect st))"
    and "reconnectAttempts (scheduleReconnect st) = reconnectAttempts st + 1"
    using h scheduleReconnect_arms by blast+
  moreover have "period ?t = min (RECONNECT_DELAY_MIN * 2 ^ (reconnectAttempts st + 1 - 1))
                                 RECONNECT_DELAY_MAX"
    by (simp add: backoff_delay_def)
  ultimately show "\<exists>t. reconnectTimer (scheduleReconnect st) = Some t \<and>
           t \<in> set (timers (scheduleReconnect st)) \<and>
           1 \<le> reconnectAttempts (scheduleReconnect st) \<and>
           period t = min (RECONNECT_DELAY_MIN * 2 ^ (reconnectAttempts (scheduleReconnect st) - 1))
                          RECONNECT_DELAY_MAX"
    by (intro exI [of _ ?t]) simp
next
  assume "1 \<le> a"
  then show "backoff_delay a = min (RECONNECT_DELAY_MIN * 2 ^ (a - 1)) RECONNECT_DELAY_MAX"
    by (rule backoff_delay_formula)
next
  assume "1 \<le> a \<and> a \<le> b"
  then show "backoff_delay a \<le> backoff_delay b"
    by (simp add: backoff_delay_mono)
next
  show "map backoff_delay [1, 2, 3, 4, 5, 6, 7] =
     [5000, 10000, 20000, 40000, 80000, 160000, 300000]"
    by (rule backoff_delay_values)
qed

theorem reconnect_delay_witness:
  "\<not> isReconnecting (start 0 False) \<and>
   reconnectAttempts (start 0 False) < MAX_RECONNECT_ATTEMPTS \<and>
   (\<exists>t. reconnectTimer (scheduleReconnect (start 0 False)) = Some t \<and>
        t \<in> set (timers (scheduleReconnect (start 0 False))) \<and>
        period t = 5000) \<and>
   (1::nat) \<le> 3 \<and> (3::nat) \<le> 9 \<and>
   backoff_delay 3 = 20000 \<and> backoff_delay 3 \<le> backoff_delay 9"
proof -
  have a: "\<not> isReconnecting (start 0 False)"
    and b: "reconnectAttempts (start 0 False) < MAX_RECONNECT_ATTEMPTS"
    by (simp_all add: start_fresh MAX_RECONNECT_ATTEMPTS_def)
  have c: "reconnectAttempts (scheduleReconnect (start 0 False)) = 1"
    using a b by (simp add: scheduleReconnect_arms start_fresh)
  show ?thesis
    using a b c reconnect_delay [of "start 0 False" 3 9]
    by (simp add: RECONNECT_DELAY_MIN_def RECONNECT_DELAY_MAX_def)
qed

text \<open>
  Claim C6. While a reconnect is pending \<open>scheduleReconnect\<close> returns the state it was
  given, every variable, timer and effect included. So a second call right after one
  that scheduled changes nothing.
\<close>

theorem scheduleReconnect_idempotent:
  "(isReconnecting st \<longrightarrow> scheduleReconnect st = st) \<and>
   (reconnectAttempts st < MAX_RECONNECT_ATTEMPTS \<longrightarrow>
      scheduleReconnect (scheduleReconnect st) = scheduleReconnect st)"
  using scheduleReconnect_sets_pending [of st]
  by (simp add: scheduleReconnect_pending)

theorem scheduleReconnect_idempotent_witness:
  "reconnectAttempts (start 0 False) < MAX_RECONNECT_ATTEMPTS \<and>
   isReconnecting (scheduleReconnect (start 0 False)) \<and>
   scheduleReconnect (scheduleReconnect (start 0 False)) = scheduleReconnect (start 0 False) \<and>
   timers (scheduleReconnect (scheduleReconnect (start 0 False))) =
     [\<lparr>kind = ReconnectT, serial = 0, period = 5000\<rparr>]"
proof -
  have a: "reconnectAttempts (start 0 False) < MAX_RECONNECT_ATTEMPTS"
    by (simp add: start_fresh MAX_RECONNECT_ATTEMPTS_def)
  have b: "isReconnecting (scheduleReconnect (start 0 False))"
    using a by (rule scheduleReconnect_sets_pending)
  have c: "timers (scheduleReconnect (start 0 False)) =
     [\<lparr>kind = ReconnectT, serial = 0, period = 5000\<rparr>]"
    by (simp add: start_def init_def connect_def emit_def scheduleReconnect_def arm_def
        backoff_delay_def MAX_RECONNECT_ATTEMPTS_def RECONNECT_DELAY_MIN_def
        RECONNECT_DELAY_MAX_def Let_def)
  show ?thesis
    using a b c scheduleReconnect_idempotent [of "scheduleReconnect (start 0 False)"]
    by simp
qed

subsection \<open>Inbound messages\<close>

lemma is_open_simps [simp]:
  "is_open (emit e st) = is_open st"
  "is_open (st\<lparr>lastActivityTime := t\<rparr>) = is_open st"
  by (simp_all add: is_open_def emit_def)

lemma on_message_malformed:
  "on_message dev now Malformed st = st\<lparr>lastActivityTime := now\<rparr>"
  by (simp add: on_message_def dispatch_def)

lemma on_message_command:
  assumes "get_prop data ''type'' = Inr ty"
    and "ty \<noteq> Val (JStr ''welcome'')" and "ty \<noteq> Val (JStr ''pong'')"
    and "get_prop data ''target'' = Inr target"
    and "target = Val (JStr (tvId dev)) \<or> target = Val (JStr ''all'')"
    and "get_prop data ''command'' = Inr command"
    and "to_property_key command = Inr key"
  shows "on_message dev now (Wellformed data) st =
     (let found = command_lookup key;
          st1 = emit (Exec (if truthy found then found else command))
                  (st\<lparr>lastActivityTime := now\<rparr>)
      in if is_open st then emit (Send (MsgConfirm (tvId dev) command ''ok'' now)) st1
         else st1)"
  using assms by (auto simp: on_message_def dispatch_def sendKey_def Let_def)

lemma on_message_other_target:
  assumes "get_prop data ''type'' = Inr ty"
    and "get_prop data ''target'' = Inr target"
    and "target \<noteq> Val (JStr (tvId dev))" and "target \<noteq> Val (JStr ''all'')"
  shows "on_message dev now (Wellformed data) st = st\<lparr>lastActivityTime := now\<rparr>"
  using assms by (auto simp: on_message_def dispatch_def Let_def)

lemma command_code_nonzero: "map_of COMMAND_MAP key = Some c \<Longrightarrow> c \<noteq> 0"
  by (auto simp: COMMAND_MAP_def split: if_splits)

lemma command_lookup_own:
  "key \<notin> set Object_prototype \<Longrightarrow>
   command_lookup key =
     (case map_of COMMAND_MAP key of Some c \<Rightarrow> Val (JNum c) | None \<Rightarrow> Undefined)"
  by (simp add: command_lookup_def split: option.splits)

lemmas run_simps = run_def step_def start_def init_def connect_def emit_def listening_def
  on_open_def registerToServer_def arm_def tv_def identity_of_def cabangId_def
  PING_INTERVAL_def Let_def

lemmas message_simps = on_message_def dispatch_def sendKey_def command_lookup_def
  COMMAND_MAP_def Object_prototype_def is_open_def

text \<open>
  Claim C1, at the input \<open>{"target":"all","command":"constructor"}\<close> on an open
  connection. The name is not in the command table, yet \<open>COMMAND_MAP[command]\<close> finds
  the constructor function that the table inherits from \<open>Object.prototype\<close>, and that
  function, not the raw name, goes to the executor. The confirmation that follows
  carries the raw name.
\<close>

theorem inherited_name_reaches_executor:
  "trace (step tv (WsMessage 7 (Wellformed
            (JObj [(''target'', JStr ''all''), (''command'', JStr ''constructor'')])))
          (run tv [WsOpen 5] (start 0 False))) =
     trace (run tv [WsOpen 5] (start 0 False)) @
       [Exec (Inherited ''constructor''),
        Send (MsgConfirm ''TV-ABCD1234'' (Val (JStr ''constructor'')) ''ok'' 7)]"
  by (simp add: run_simps message_simps)

text \<open>
  Claim C4 as stated fails: a payload that does not decode still moves the activity
  timestamp, here from 5 to 1000.
\<close>

theorem malformed_payload_bumps_activity:
  "lastActivityTime (run tv [WsOpen 5] (start 0 False)) = 5 \<and>
   lastActivityTime (step tv (WsMessage 1000 Malformed) (run tv [WsOpen 5] (start 0 False)))
     = 1000"
  by (simp add: run_simps message_simps)

text \<open>
  Claim C4, amended. The listener records the activity before it decodes. For a payload
  that does not decode it then does nothing else: the process goes on, no timer, socket,
  counter or flag changes, and nothing is sent or executed. If the event cannot occur
  in the state, the state stays as it is.
\<close>

theorem malformed_payload_only_bumps_activity:
  "on_message dev now Malformed st = st\<lparr>lastActivityTime := now\<rparr> \<and>
   (step dev (WsMessage now Malformed) st = st \<or>
    step dev (WsMessage now Malformed) st = st\<lparr>lastActivityTime := now\<rparr>)"
  by (simp add: step_def on_message_malformed split: option.splits)

theorem malformed_payload_only_bumps_activity_witness:
  "step tv (WsMessage 1000 Malformed) (run tv [WsOpen 5] (start 0 False)) =
     (run tv [WsOpen 5] (start 0 False))\<lparr>lastActivityTime := 1000\<rparr>"
proof -
  have "step tv (WsMessage 1000 Malformed) (run tv [WsOpen 5] (start 0 False)) =
          on_message tv 1000 Malformed (run tv [WsOpen 5] (start 0 False))"
    by (simp add: run_simps)
  then show ?thesis
    using malformed_payload_only_bumps_activity [of tv 1000 "run tv [WsOpen 5] (start 0 False)"]
    by simp
qed

text \<open>
  The type is looked at before the target: a message of type \<open>pong\<close> addressed to
  \<open>all\<close> is answered by the \<open>pong\<close> branch, and the executor is not invoked.
\<close>

lemma pong_with_target_not_executed:
  "get_prop (JObj [(''type'', JStr ''pong''), (''target'', JStr ''all'')]) ''target''
     = Inr (Val (JStr ''all'')) \<and>
   get_prop (JObj [(''type'', JStr ''pong''), (''target'', JStr ''all'')]) ''command''
     = Inr Undefined \<and>
   trace (step tv (WsMessage 7 (Wellformed
            (JObj [(''type'', JStr ''pong''), (''target'', JStr ''all'')])))
          (run tv [WsOpen 5] (start 0 False))) =
     trace (run tv [WsOpen 5] (start 0 False))"
  by (simp add: run_simps message_simps)

text \<open>
  The command branch away from the inherited names. Take a decoded message whose type
  is neither \<open>welcome\<close> nor \<open>pong\<close>, whose target is the device id or \<open>all\<close>, and
  whose command (absent, or any value) has a property key that is not a name inherited
  from \<open>Object.prototype\<close>. The executor is invoked: with the table's code when the key
  is in the table, with the raw command otherwise, which is \<open>undefined\<close> when the field
  is absent. The confirmation, sent when the socket is open, carries the raw command in
  both cases.
\<close>

lemma unknown_command_passes_through:
  assumes "get_prop data ''type'' = Inr ty"
    and "ty \<noteq> Val (JStr ''welcome'')" and "ty \<noteq> Val (JStr ''pong'')"
    and "get_prop data ''target'' = Inr target"
    and "target = Val (JStr (tvId dev)) \<or> target = Val (JStr ''all'')"
    and "get_prop data ''command'' = Inr command"
    and "to_property_key command = Inr key"
    and "key \<notin> set Object_prototype"
  shows "on_message dev now (Wellformed data) st =
     (let code = (case map_of COMMAND_MAP key of
                    Some c \<Rightarrow> Val (JNum c)
                  | None \<Rightarrow> command);
          st1 = emit (Exec code) (st\<lparr>lastActivityTime := now\<rparr>)
      in if is_open st then emit (Send (MsgConfirm (tvId dev) command ''ok'' now)) st1
         else st1)"
proof -
  have "(if truthy (command_lookup key) then command_lookup key else command) =
        (case map_of COMMAND_MAP key of Some c \<Rightarrow> Val (JNum c) | None \<Rightarrow> command)"
    using assms(8) command_code_nonzero [of key]
    by (simp add: command_lookup_own split: option.splits)
  then show ?thesis
    using on_message_command [OF assms(1-7), of now st] by (simp add: Let_def)
qed

lemma unknown_command_passes_through_example:
  "get_prop (JObj [(''target'', JStr ''all'')]) ''type'' = Inr Undefined \<and>
   Undefined \<noteq> Val (JStr ''welcome'') \<and> Undefined \<noteq> Val (JStr ''pong'') \<and>
   get_prop (JObj [(''target'', JStr ''all'')]) ''target'' = Inr (Val (JStr ''all'')) \<and>
   get_prop (JObj [(''target'', JStr ''all'')]) ''command'' = Inr Undefined \<and>
   to_property_key Undefined = Inr ''undefined'' \<and>
   ''undefined'' \<notin> set Object_prototype \<and>
   trace (on_message tv 7 (Wellformed (JObj [(''target'', JStr ''all'')]))
           (run tv [WsOpen 5] (start 0 False))) =
     trace (run tv [WsOpen 5] (start 0 False)) @
       [Exec Undefined, Send (MsgConfirm ''TV-ABCD1234'' Undefined ''ok'' 7)]"
proof -
  let ?d = "JObj [(''target'', JStr ''all'')]"
  have a: "get_prop ?d ''type'' = Inr Undefined"
    and b: "get_prop ?d ''target'' = Inr (Val (JStr ''all''))"
    and c: "get_prop ?d ''command'' = Inr Undefined"
    and d: "''undefined'' \<notin> set Object_prototype"
    by (simp_all add: Object_prototype_def)
  have e: "is_open (run tv [WsOpen 5] (start 0 False))"
    by (simp add: run_simps is_open_def)
  have f: "tvId tv = ''TV-ABCD1234''" by (simp add: tv_def)
  show ?thesis
    using a b c d e f
      unknown_command_passes_through [of ?d Undefined "Val (JStr ''all'')" tv Undefined
        "''undefined''" 7 "run tv [WsOpen 5] (start 0 False)"]
    by (simp add: COMMAND_MAP_def emit_def)
qed

text \<open>
  Claim C10, at the inputs \<open>{"target":"TV-ABCD1234","command":"toString"}\<close> and
  \<open>{"target":"all","command":{"toString":1}}\<close> on an open connection. Neither command
  is a key of the command table, so the executor should receive the raw value. For the
  first, \<open>COMMAND_MAP[command]\<close> finds the function the table inherits from
  \<open>Object.prototype\<close>, and the executor receives that function; the confirmation
  carries the raw name. For the second, converting the command to a property key throws
  inside \<open>sendKey\<close>; the listener catches the exception, and neither the executor nor
  the confirmation happens.
\<close>

theorem inherited_name_not_passed_raw:
  "map_of COMMAND_MAP ''toString'' = None \<and>
   trace (step tv (WsMessage 7 (Wellformed
            (JObj [(''target'', JStr ''TV-ABCD1234''), (''command'', JStr ''toString'')])))
          (run tv [WsOpen 5] (start 0 False))) =
     trace (run tv [WsOpen 5] (start 0 False)) @
       [Exec (Inherited ''toString''),
        Send (MsgConfirm ''TV-ABCD1234'' (Val (JStr ''toString'')) ''ok'' 7)] \<and>
   to_property_key (Val (JObj [(''toString'', JNum 1)])) = Inl TypeError \<and>
   trace (step tv (WsMessage 7 (Wellformed
            (JObj [(''target'', JStr ''all''),
                   (''command'', JObj [(''toString'', JNum 1)])])))
          (run tv [WsOpen 5] (start 0 False))) =
     trace (run tv [WsOpen 5] (start 0 False))"
  by (simp add: run_simps message_simps)

subsection \<open>What each handler does to the state\<close>

lemma cancel_of_simps [simp]: "cancel_of None = []" "cancel_of (Some t) = [Cancel t]"
  by (simp_all add: cancel_of_def)

lemma without_None [simp]: "without None ts = ts"
  by (simp add: without_def)

lemma filter_neq_without [simp]: "filter (\<lambda>u. u \<noteq> t) ts = without (Some t) ts"
  by (simp add: without_def)

lemma cleanup_eq:
  "cleanup st =
     st\<lparr>timers := without (reconnectTimer st) (without (pingTimer st) (timers st)),
        ws := map_option detach (ws st),
        lockFile := False,
        trace := trace st @ cancel_of (pingTimer st) @ cancel_of (reconnectTimer st) @
                 close_of (ws st) @ (if lockFile st then [Unlink] else []) @ [WakeUnlock]\<rparr>"
  by (cases "pingTimer st"; cases "reconnectTimer st"; cases "ws st")
     (auto simp: cleanup_def Let_def emit_def clearTimer_def shut_def detach_def close_of_def)

lemma process_exit_eq:
  "process_exit code st =
     st\<lparr>timers := without (reconnectTimer st) (without (pingTimer st) (timers st)),
        ws := map_option detach (ws st),
        lockFile := False,
        exited := Some code,
        trace := trace st @ cancel_of (pingTimer st) @ cancel_of (reconnectTimer st) @
                 close_of (ws st) @ (if lockFile st then [Unlink] else []) @
                 [WakeUnlock, Exit code]\<rparr>"
  by (simp add: process_exit_def cleanup_eq emit_def)

lemma without_twice [simp]: "without v (without v ts) = without v ts"
  by (simp add: without_def del: filter_neq_without)

lemma without_commute: "without v (without w ts) = without w (without v ts)"
  by (auto simp: without_def simp del: filter_neq_without intro: filter_cong)

lemma without_again [simp]:
  "without r (without p (without r (without p ts))) = without r (without p ts)"
  by (induction ts) (auto simp: without_def simp del: filter_neq_without)

lemma detach_twice [simp]: "detach (detach s) = detach s"
  by (simp add: detach_def)

lemma close_of_detached [simp]: "close_of (map_option detach w) = []"
  by (cases w) (simp_all add: close_of_def detach_def)

lemma scheduleReconnect_arm_eq:
  assumes "\<not> isReconnecting st" "reconnectAttempts st < MAX_RECONNECT_ATTEMPTS"
  shows "scheduleReconnect st =
     st\<lparr>isReconnecting := True,
        reconnectAttempts := reconnectAttempts st + 1,
        pingTimer := None,
        healthCheckInterval := None,
        reconnectTimer := Some (next_reconnect st),
        reconnectsArmed := reconnectsArmed st + 1,
        timers := without (reconnectTimer st)
                    (without (healthCheckInterval st) (without (pingTimer st) (timers st)))
                  @ [next_reconnect st],
        trace := trace st @ cancel_of (pingTimer st) @ cancel_of (healthCheckInterval st) @
                 cancel_of (reconnectTimer st) @ [Arm (next_reconnect st)]\<rparr>"
  using assms
  by (cases "pingTimer st"; cases "healthCheckInterval st"; cases "reconnectTimer st")
     (simp_all add: scheduleReconnect_def Let_def emit_def clearTimer_def arm_def
        next_reconnect_def)

lemma scheduleReconnect_exit_eq:
  assumes "\<not> isReconnecting st" "MAX_RECONNECT_ATTEMPTS \<le> reconnectAttempts st"
  shows "scheduleReconnect st =
     st\<lparr>timers := without (reconnectTimer st) (without (pingTimer st) (timers st)),
        ws := map_option detach (ws st),
        lockFile := False,
        exited := Some 1,
        trace := trace st @ cancel_of (pingTimer st) @ cancel_of (reconnectTimer st) @
                 close_of (ws st) @ (if lockFile st then [Unlink] else []) @ [WakeUnlock] @
                 cancel_of (pingTimer st) @ cancel_of (reconnectTimer st) @
                 [WakeUnlock, Exit 1]\<rparr>"
  using assms
  by (simp add: scheduleReconnect_def process_exit_eq cleanup_eq option.map_comp comp_def
      without_again)

lemma connect_eq:
  "connect False st =
     st\<lparr>ws := Some fresh_socket, trace := trace st @ close_of (ws st) @ [NewSocket]\<rparr>"
  by (cases "ws st"; simp add: connect_def emit_def close_of_def fresh_socket_def)

lemma connect_throw_eq:
  "connect True st =
     scheduleReconnect (st\<lparr>ws := None, trace := trace st @ close_of (ws st)\<rparr>)"
proof (cases "ws st")
  case None
  then have "st\<lparr>ws := None\<rparr> = st\<lparr>ws := ws st\<rparr>" by simp
  then have eq: "st\<lparr>ws := None\<rparr> = st" by simp
  have "connect True st = scheduleReconnect st"
    using None by (simp add: connect_def)
  also have "\<dots> = scheduleReconnect (st\<lparr>ws := None\<rparr>)"
    by (simp only: eq)
  also have "st\<lparr>ws := None\<rparr> = st\<lparr>ws := None, trace := trace st @ close_of (ws st)\<rparr>"
    using None by (simp add: close_of_def)
  finally show ?thesis .
next
  case (Some s)
  then show ?thesis by (simp add: connect_def emit_def close_of_def)
qed

lemma registerToServer_eq:
  "registerToServer dev cabang st =
     st\<lparr>pendingPosts := pendingPosts st + (if isRegistered st then 0 else 1),
        trace := trace st @ post_of dev cabang (isRegistered st)\<rparr>"
  by (simp add: registerToServer_def emit_def post_of_def)

lemma on_open_eq:
  "on_open dev now st =
     st\<lparr>reconnectAttempts := 0,
        isReconnecting := False,
        lastActivityTime := now,
        pendingPosts := pendingPosts st + (if isRegistered st then 0 else 1),
        pingTimer := Some (next_ping st),
        pingsArmed := pingsArmed st + 1,
        healthCheckInterval := Some (next_health st),
        healthsArmed := healthsArmed st + 1,
        timers := without (healthCheckInterval st) (without (pingTimer st) (timers st))
                  @ [next_ping st, next_health st],
        trace := trace st @ [Send (MsgRegister (identity_of dev cabangId))] @
                 post_of dev cabangId (isRegistered st) @
                 cancel_of (pingTimer st) @ cancel_of (healthCheckInterval st) @
                 [Arm (next_ping st), Arm (next_health st)]\<rparr>"
  by (cases "pingTimer st"; cases "healthCheckInterval st")
     (simp_all add: on_open_def Let_def registerToServer_eq emit_def clearTimer_def arm_def
        next_ping_def next_health_def)

lemma terminate_eq:
  "terminate st =
     st\<lparr>ws := map_option shut (ws st),
        trace := trace st @ (case ws st of None \<Rightarrow> [] | Some s \<Rightarrow> [Terminate])\<rparr>"
  by (cases "ws st") (simp_all add: terminate_def emit_def)

lemma get_prop_defined: "data \<noteq> JNull \<Longrightarrow> \<exists>v. get_prop data name = Inr v"
  by (cases data) (simp_all split: option.split)

lemma get_prop_other:
  "get_prop data name = Inr v \<Longrightarrow> \<exists>w. get_prop data name' = Inr w"
  by (rule get_prop_defined) auto

lemma on_message_eq:
  "on_message dev now msg st =
     st\<lparr>lastActivityTime := now,
        trace := trace st @ message_effects dev now msg (is_open st)\<rparr>"
proof (cases msg)
  case Malformed
  then show ?thesis
    by (simp add: on_message_def dispatch_def message_effects_def)
next
  case (Wellformed data)
  show ?thesis
  proof (cases "get_prop data ''type''")
    case (Inl e)
    with Wellformed show ?thesis
      by (simp add: on_message_def dispatch_def message_effects_def)
  next
    case (Inr ty)
    then obtain target where t: "get_prop data ''target'' = Inr target"
      using get_prop_other by blast
    then obtain command where c: "get_prop data ''command'' = Inr command"
      using get_prop_other by blast
    show ?thesis
      using Wellformed Inr t c
      by (cases "to_property_key command")
         (simp_all add: on_message_def dispatch_def message_effects_def command_effects_def
            sendKey_def emit_def is_open_def Let_def)
  qed
qed


lemma of_kind_simps [simp]:
  "of_kind k [] = []"
  "of_kind k (t # ts) = (if kind t = k then t # of_kind k ts else of_kind k ts)"
  "of_kind k (ts @ us) = of_kind k ts @ of_kind k us"
  by (simp_all add: of_kind_def)

lemma of_kind_without [simp]: "of_kind k (without v ts) = without v (of_kind k ts)"
  by (induction ts) (auto simp: without_def of_kind_def simp del: filter_neq_without)

lemma without_Nil [simp]: "without v [] = []"
  by (simp add: without_def del: filter_neq_without)

lemma owns_simps [simp]: "owns v []" "owns (Some t) [t]"
  by (simp_all add: owns_def)

lemma owns_cleared [simp]: "owns v xs \<Longrightarrow> without v xs = []"
  by (auto simp: owns_def without_def simp del: filter_neq_without)

lemma owns_keep [simp]: "owns v xs \<Longrightarrow> owns v (without w xs)"
  by (auto simp: owns_def without_def simp del: filter_neq_without split: if_splits)

lemma owns_None [simp]: "owns None xs = (xs = [])"
  by (simp add: owns_def)

lemma all_kinds_empty:
  "of_kind PingT ts = [] \<Longrightarrow> of_kind HealthT ts = [] \<Longrightarrow> of_kind ReconnectT ts = [] \<Longrightarrow>
   ts = []"
proof (cases ts)
  case Nil
  then show ?thesis by simp
next
  case (Cons t us)
  assume "of_kind PingT ts = []" "of_kind HealthT ts = []" "of_kind ReconnectT ts = []"
  with Cons show ?thesis by (cases "kind t") (simp_all split: if_splits)
qed

lemma owns_length: "owns v xs \<Longrightarrow> length xs \<le> 1"
  by (auto simp: owns_def)

lemma foldl_track_cancel [simp]: "foldl track ts (cancel_of v) = without v ts"
  by (cases v) simp_all

lemma track_silent: "silent e \<Longrightarrow> track ts e = ts"
  by (cases e) simp_all

lemma foldl_track_silent [simp]: "list_all silent es \<Longrightarrow> foldl track ts es = ts"
  by (induction es) (simp_all add: track_silent)

lemma arms_clean_Cons:
  "arms_clean ts (e # es) =
     ((case e of Arm t \<Rightarrow> of_kind (kind t) ts = [] | _ \<Rightarrow> True) \<and>
      arms_clean (track ts e) es)"
  by (cases e) simp_all

lemma arms_clean_append [simp]:
  "arms_clean ts (es @ fs) = (arms_clean ts es \<and> arms_clean (foldl track ts es) fs)"
  by (induction es arbitrary: ts) (auto simp: arms_clean_Cons)

lemma arms_clean_cancel [simp]: "arms_clean ts (cancel_of v)"
  by (cases v) simp_all

lemma arms_clean_silent [simp]: "list_all silent es \<Longrightarrow> arms_clean ts es"
  by (induction es) (auto simp: arms_clean_Cons track_silent split: effect.splits)

lemma silent_lists [simp]:
  "list_all silent (close_of w)"
  "list_all silent (post_of dev cabang r)"
  "list_all silent (command_effects dev now data opened)"
  "list_all silent (message_effects dev now msg opened)"
  "list_all silent (legacy_message_effects dev now msg opened)"
  by (auto simp: close_of_def post_of_def command_effects_def message_effects_def
      legacy_message_effects_def split: option.splits sum.splits)

lemma next_kinds [simp]:
  "kind (next_ping st) = PingT" "kind (next_health st') = HealthT"
  "kind (next_reconnect st') = ReconnectT"
  by (simp_all add: next_ping_def next_health_def next_reconnect_def)

lemma timers_ok_ws [simp]: "timers_ok (st\<lparr>ws := w\<rparr>) = timers_ok st"
  by (simp add: timers_ok_def)

lemma timers_ok_scheduleReconnect:
  assumes "timers_ok st"
  shows "timers_ok (scheduleReconnect st)"
proof -
  consider (pending) "isReconnecting st"
    | (give_up) "\<not> isReconnecting st" "MAX_RECONNECT_ATTEMPTS \<le> reconnectAttempts st"
    | (schedule) "\<not> isReconnecting st" "reconnectAttempts st < MAX_RECONNECT_ATTEMPTS"
    by linarith
  then show ?thesis
  proof cases
    case pending
    with assms show ?thesis by (simp add: scheduleReconnect_pending)
  next
    case give_up
    with assms show ?thesis
      by (simp add: scheduleReconnect_exit_eq timers_ok_def)
  next
    case schedule
    with assms show ?thesis
      by (simp add: scheduleReconnect_arm_eq timers_ok_def)
  qed
qed

lemma timers_ok_on_open: "timers_ok st \<Longrightarrow> timers_ok (on_open dev now st)"
  by (simp add: on_open_eq timers_ok_def)

lemma timers_ok_connect: "timers_ok st \<Longrightarrow> timers_ok (connect c st)"
proof (cases c)
  case True
  assume "timers_ok st"
  then have "timers_ok (st\<lparr>ws := None, trace := trace st @ close_of (ws st)\<rparr>)"
    by (simp add: timers_ok_def)
  with True show ?thesis
    by (simp add: connect_throw_eq timers_ok_scheduleReconnect)
next
  case False
  assume "timers_ok st"
  with False show ?thesis by (simp add: connect_eq timers_ok_def)
qed

lemma timers_ok_on_message: "timers_ok st \<Longrightarrow> timers_ok (on_message dev now msg st)"
  by (simp add: on_message_eq timers_ok_def)

lemma timers_ok_ping_tick: "timers_ok st \<Longrightarrow> timers_ok (ping_tick dev now addr thr st)"
  by (simp add: ping_tick_def timers_ok_scheduleReconnect)
     (simp add: timers_ok_def emit_def)

lemma timers_ok_health_tick: "timers_ok st \<Longrightarrow> timers_ok (health_tick now st)"
proof -
  assume a: "timers_ok st"
  then have "timers_ok (terminate st)"
    by (simp add: terminate_eq timers_ok_def split: option.splits)
  with a show ?thesis
    by (simp add: health_tick_def Let_def timers_ok_scheduleReconnect)
qed

lemma timers_ok_expire:
  assumes "timers_ok st"
  shows "timers_ok (reconnect_tick c
           (emit (Expired t) (st\<lparr>timers := without (Some t) (timers st)\<rparr>)))"
proof -
  have "timers_ok ((emit (Expired t) (st\<lparr>timers := without (Some t) (timers st)\<rparr>))
          \<lparr>isReconnecting := False\<rparr>)"
    using assms by (simp add: timers_ok_def emit_def)
  then show ?thesis
    unfolding reconnect_tick_def by (rule timers_ok_connect)
qed

lemma timers_ok_exit: "timers_ok st \<Longrightarrow> timers_ok (process_exit code (cleanup st))"
  by (simp add: process_exit_eq cleanup_eq timers_ok_def)

lemma timers_ok_settled: "timers_ok st \<Longrightarrow> timers_ok (registration_settled ok st)"
  by (simp add: registration_settled_def timers_ok_def Let_def)

lemma timers_ok_step: "timers_ok st \<Longrightarrow> timers_ok (step dev ev st)"
proof (cases ev)
  case (ReconnectFires n c)
  assume "timers_ok st"
  with ReconnectFires show ?thesis
    by (auto simp: step_def timers_ok_expire split: option.splits)
next
  case (WsOpen now)
  assume "timers_ok st"
  with WsOpen show ?thesis
    by (auto simp: step_def timers_ok_on_open split: option.splits)
next
  case (WsMessage now msg)
  assume "timers_ok st"
  with WsMessage show ?thesis
    by (auto simp: step_def timers_ok_on_message split: option.splits)
next
  case WsClose
  assume "timers_ok st"
  with WsClose show ?thesis
    by (auto simp: step_def on_close_def timers_ok_scheduleReconnect split: option.splits)
next
  case (PingFires n now addr thr)
  assume "timers_ok st"
  with PingFires show ?thesis
    by (auto simp: step_def timers_ok_ping_tick split: option.splits)
next
  case (HealthFires n now)
  assume "timers_ok st"
  with HealthFires show ?thesis
    by (auto simp: step_def timers_ok_health_tick split: option.splits)
next
  case (PostSettled ok)
  assume "timers_ok st"
  with PostSettled show ?thesis
    by (auto simp: step_def timers_ok_settled)
next
  case Signal
  assume "timers_ok st"
  with Signal show ?thesis
    by (auto simp: step_def on_signal_def timers_ok_exit)
qed (auto simp: step_def on_error_def on_ping_def on_pong_def emit_def timers_ok_def
      split: option.splits)

lemma timers_ok_run: "timers_ok st \<Longrightarrow> timers_ok (run dev evs st)"
  unfolding run_def
  by (induction evs arbitrary: st) (simp_all add: timers_ok_step)

lemma timers_ok_start: "timers_ok (start t0 c)"
proof -
  have "timers_ok (init t0)" by (simp add: init_def timers_ok_def)
  then show ?thesis unfolding start_def by (rule timers_ok_connect)
qed

lemma detach_not_open:
  "readyState (detach s) \<noteq> OPEN" "readyState (detach s) \<noteq> CONNECTING"
  "\<not> listeners (detach s)"
  by (simp_all add: detach_def)

lemma life_scheduleReconnect:
  assumes "sound st" "not_connecting st" "exited st = None"
  shows "life_ok (scheduleReconnect st)"
proof -
  have t: "timers_ok st" and l: "life_ok st" using assms(1) by (simp_all add: sound_def)
  consider (pending) "isReconnecting st"
    | (give_up) "\<not> isReconnecting st" "MAX_RECONNECT_ATTEMPTS \<le> reconnectAttempts st"
    | (schedule) "\<not> isReconnecting st" "reconnectAttempts st < MAX_RECONNECT_ATTEMPTS"
    by linarith
  then show ?thesis
  proof cases
    case pending
    with l show ?thesis by (simp add: scheduleReconnect_pending)
  next
    case give_up
    then have pos: "reconnectAttempts st \<noteq> 0"
      by (simp add: MAX_RECONNECT_ATTEMPTS_def)
    with l have h: "of_kind HealthT (timers st) = []"
      by (auto simp: life_ok_def)
    have p: "of_kind PingT (without (reconnectTimer st) (without (pingTimer st) (timers st))) = []"
      and r: "of_kind ReconnectT (without (reconnectTimer st) (without (pingTimer st) (timers st))) = []"
      and h': "of_kind HealthT (without (reconnectTimer st) (without (pingTimer st) (timers st))) = []"
      using t h by (simp_all add: timers_ok_def without_commute [of "reconnectTimer st"])
    have e: "without (reconnectTimer st) (without (pingTimer st) (timers st)) = []"
      using p h' r by (rule all_kinds_empty)
    show ?thesis
      using give_up l e
      by (simp add: scheduleReconnect_exit_eq life_ok_def torn_down_def detach_not_open
          split: option.splits)
  next
    case schedule
    with t l assms(2,3) show ?thesis
      by (simp add: scheduleReconnect_arm_eq life_ok_def timers_ok_def not_connecting_def)
  qed
qed

lemma sound_scheduleReconnect:
  "sound st \<Longrightarrow> not_connecting st \<Longrightarrow> exited st = None \<Longrightarrow> sound (scheduleReconnect st)"
  using life_scheduleReconnect [of st] by (simp add: sound_def timers_ok_scheduleReconnect)

lemma sound_on_open:
  assumes "sound st" "exited st = None" "ws st = Some s" "readyState s = CONNECTING"
  shows "sound (on_open dev now (st\<lparr>ws := Some (s\<lparr>readyState := OPEN\<rparr>)\<rparr>))"
proof -
  have t: "timers_ok st" and l: "life_ok st" using assms(1) by (simp_all add: sound_def)
  have nc: "\<not> not_connecting st" using assms(3,4) by (simp add: not_connecting_def)
  with l have none: "of_kind ReconnectT (timers st) = []" "of_kind PingT (timers st) = []"
    "of_kind HealthT (timers st) = []"
    by (auto simp: life_ok_def)
  have "life_ok (on_open dev now (st\<lparr>ws := Some (s\<lparr>readyState := OPEN\<rparr>)\<rparr>))"
    using none assms(2) by (simp add: on_open_eq life_ok_def not_connecting_def)
  moreover have "timers_ok (on_open dev now (st\<lparr>ws := Some (s\<lparr>readyState := OPEN\<rparr>)\<rparr>))"
    using t by (simp add: timers_ok_on_open)
  ultimately show ?thesis by (simp add: sound_def)
qed

lemma sound_on_message:
  "sound st \<Longrightarrow> sound (on_message dev now msg st)"
  by (simp add: sound_def timers_ok_on_message)
     (simp add: on_message_eq life_ok_def not_connecting_def torn_down_def)

lemma sound_forward:
  assumes "sound st" "ws st = Some s" "readyState s' \<noteq> CONNECTING" "exited st = None"
  shows "sound (st\<lparr>ws := Some s'\<rparr>)"
  using assms by (auto simp: sound_def life_ok_def not_connecting_def)

lemma sound_ping_tick:
  assumes "sound st" "exited st = None" "of_kind PingT (timers st) \<noteq> []"
  shows "sound (ping_tick dev now addr thr st)"
proof -
  have nc: "not_connecting st"
    using assms(1,3) by (auto simp: sound_def life_ok_def)
  have "sound ((emit (Send (MsgPing (tvId dev) addr now)) st)\<lparr>lastActivityTime := now\<rparr>)"
    using assms(1)
    by (simp add: sound_def timers_ok_def life_ok_def emit_def not_connecting_def torn_down_def)
  then show ?thesis
    using assms(1,2) nc by (simp add: ping_tick_def sound_scheduleReconnect)
qed

lemma shut_not_connecting: "readyState (shut s) \<noteq> CONNECTING"
  by (simp add: shut_def)

lemma sound_health_tick:
  assumes "sound st" "exited st = None"
  shows "sound (health_tick now st)"
proof -
  have a: "sound (terminate st)"
    using assms
    by (auto simp: terminate_eq sound_def timers_ok_def life_ok_def not_connecting_def
        shut_not_connecting split: option.splits)
  have b: "not_connecting (terminate st)"
    by (simp add: terminate_eq not_connecting_def shut_not_connecting split: option.splits)
  have c: "exited (terminate st) = None"
    using assms(2) by (simp add: terminate_eq)
  show ?thesis
    using assms(1) a b c by (simp add: health_tick_def Let_def sound_scheduleReconnect)
qed

lemma find_of_kind:
  "find (\<lambda>t. kind t = k \<and> serial t = n) ts = Some t \<Longrightarrow> t \<in> set (of_kind k ts)"
  by (induction ts) (auto simp: of_kind_def split: if_splits)

lemma sound_expire:
  assumes "sound st" "exited st = None" "outstanding ReconnectT n st = Some t"
  shows "sound (reconnect_tick c
           (emit (Expired t) (st\<lparr>timers := without (Some t) (timers st)\<rparr>)))"
proof -
  have tk: "timers_ok st" and l: "life_ok st" using assms(1) by (simp_all add: sound_def)
  have mem: "t \<in> set (of_kind ReconnectT (timers st))"
    using assms(3) by (auto simp: outstanding_def dest: find_of_kind)
  then have ne: "of_kind ReconnectT (timers st) \<noteq> []" by auto
  have own: "owns (reconnectTimer st) (of_kind ReconnectT (timers st))"
    using tk by (simp add: timers_ok_def)
  with mem have only: "of_kind ReconnectT (timers st) = [t]" "reconnectTimer st = Some t"
    by (auto simp: owns_def)
  have gone: "of_kind ReconnectT (without (Some t) (timers st)) = []"
    using own only by simp
  have quiet: "of_kind PingT (timers st) = []" "of_kind HealthT (timers st) = []"
    using l ne by (auto simp: life_ok_def)
  let ?s = "(emit (Expired t) (st\<lparr>timers := without (Some t) (timers st)\<rparr>))
              \<lparr>isReconnecting := False\<rparr>"
  have s: "sound ?s"
    using tk l gone quiet assms(2)
    by (simp add: sound_def timers_ok_def life_ok_def emit_def not_connecting_def)
  show ?thesis
  proof (cases c)
    case False
    then show ?thesis
      using s gone quiet assms(2)
      by (simp add: reconnect_tick_def connect_eq sound_def timers_ok_def life_ok_def
          emit_def not_connecting_def)
  next
    case True
    have "sound (?s\<lparr>ws := None, trace := trace ?s @ close_of (ws ?s)\<rparr>)"
      using s gone quiet assms(2)
      by (simp add: sound_def timers_ok_def life_ok_def emit_def not_connecting_def)
    then show ?thesis
      using True assms(2)
      by (simp add: reconnect_tick_def connect_throw_eq sound_scheduleReconnect
          not_connecting_def emit_def)
  qed
qed

lemma outstanding_of_kind:
  "outstanding k n st = Some t \<Longrightarrow> of_kind k (timers st) \<noteq> []"
  by (auto simp: outstanding_def dest: find_of_kind)

lemma sound_signal:
  assumes "sound st"
  shows "sound (on_signal st)"
proof -
  have "timers_ok (on_signal st)"
    using assms by (simp add: on_signal_def sound_def timers_ok_exit)
  moreover have "life_ok (on_signal st)"
  proof (cases "of_kind HealthT (timers st) = []")
    case True
    with assms show ?thesis
      by (simp add: on_signal_def process_exit_eq cleanup_eq sound_def life_ok_def
          timers_ok_def not_connecting_def detach_def split: option.splits)
  next
    case False
    with assms have "ws st \<noteq> None" "\<not> isReconnecting st" "reconnectAttempts st = 0"
      by (auto simp: sound_def life_ok_def)
    with assms show ?thesis
      by (auto simp: on_signal_def process_exit_eq cleanup_eq sound_def life_ok_def
          timers_ok_def not_connecting_def detach_def)
  qed
  ultimately show ?thesis by (simp add: sound_def)
qed

lemma sound_settled:
  "sound st \<Longrightarrow> sound (registration_settled ok st)"
  by (simp add: registration_settled_def Let_def sound_def timers_ok_def life_ok_def
      not_connecting_def torn_down_def)

lemma sound_step:
  assumes "sound st"
  shows "sound (step dev ev st)"
proof (cases "exited st = None")
  case False
  then show ?thesis using assms by (simp add: step_def)
next
  case live: True
  show ?thesis
  proof (cases ev)
    case (WsOpen now)
    with assms live show ?thesis
      by (auto simp: step_def listening_def sound_on_open split: option.splits if_splits)
  next
    case (WsMessage now msg)
    with assms live show ?thesis
      by (auto simp: step_def sound_on_message split: option.splits)
  next
    case WsClose
    have "sound (scheduleReconnect (st\<lparr>ws := Some (s\<lparr>readyState := CLOSED\<rparr>)\<rparr>))"
      if "ws st = Some s" for s
    proof -
      have "sound (st\<lparr>ws := Some (s\<lparr>readyState := CLOSED\<rparr>)\<rparr>)"
        using assms that live by (intro sound_forward) simp_all
      then show ?thesis
        using live by (intro sound_scheduleReconnect) (simp_all add: not_connecting_def)
    qed
    with WsClose assms live show ?thesis
      by (auto simp: step_def listening_def on_close_def split: option.splits if_splits)
  next
    case WsError
    with assms show ?thesis
      by (auto simp: step_def on_error_def split: option.splits)
  next
    case (WsPing now)
    have "sound (on_ping now st)"
      using assms
      by (simp add: on_ping_def emit_def sound_def timers_ok_def life_ok_def
          not_connecting_def torn_down_def)
    with WsPing assms show ?thesis
      by (auto simp: step_def split: option.splits)
  next
    case (WsPong now)
    have "sound (on_pong now st)"
      using assms
      by (simp add: on_pong_def sound_def timers_ok_def life_ok_def
          not_connecting_def torn_down_def)
    with WsPong assms show ?thesis
      by (auto simp: step_def split: option.splits)
  next
    case PeerClosing
    have "sound (st\<lparr>ws := Some (s\<lparr>readyState := CLOSING\<rparr>)\<rparr>)" if "ws st = Some s" for s
      using assms that live by (intro sound_forward) simp_all
    with PeerClosing assms show ?thesis
      by (auto simp: step_def split: option.splits)
  next
    case (PingFires n now addr thr)
    with assms live show ?thesis
      by (auto simp: step_def sound_ping_tick dest: outstanding_of_kind split: option.splits)
  next
    case (HealthFires n now)
    with assms live show ?thesis
      by (auto simp: step_def sound_health_tick split: option.splits)
  next
    case (ReconnectFires n c)
    with assms live show ?thesis
      by (auto simp: step_def sound_expire split: option.splits)
  next
    case (PostSettled ok)
    with assms show ?thesis
      by (auto simp: step_def sound_settled)
  next
    case Signal
    with assms show ?thesis
      by (auto simp: step_def sound_signal)
  qed
qed

lemma sound_run: "sound st \<Longrightarrow> sound (run dev evs st)"
  unfolding run_def
  by (induction evs arbitrary: st) (simp_all add: sound_step)

lemma sound_start: "sound (start t0 c)"
proof (cases c)
  case False
  then show ?thesis
    by (simp add: start_def connect_eq init_def sound_def timers_ok_def life_ok_def
        close_of_def MAX_RECONNECT_ATTEMPTS_def)
next
  case True
  have "sound (init t0)"
    by (simp add: init_def sound_def timers_ok_def life_ok_def MAX_RECONNECT_ATTEMPTS_def)
  then have "sound ((init t0)\<lparr>ws := None, trace := trace (init t0) @ close_of (ws (init t0))\<rparr>)"
    by (simp add: init_def close_of_def)
  then show ?thesis
    using True
    by (simp add: start_def connect_throw_eq)
       (rule sound_scheduleReconnect, simp_all add: not_connecting_def init_def)
qed

lemma sound_reachable: "sound (run dev evs (start t0 c))"
  by (rule sound_run) (rule sound_start)

lemmas timer_simps = outstanding_def ping_tick_def health_tick_def terminate_def shut_def
  reconnect_tick_def on_close_def scheduleReconnect_def clearTimer_def is_open_def
  backoff_delay_def MAX_RECONNECT_ATTEMPTS_def RECONNECT_DELAY_MIN_def
  RECONNECT_DELAY_MAX_def

text \<open>
  Claim C5. From the start of the process and after any sequence of events, at most
  one timer of each kind (ping, health check, reconnect) is outstanding. Replaying the
  trace of timer operations from the start, every \<open>Arm\<close> finds no outstanding timer of
  its own kind: the predecessor has been cancelled, or has expired.
\<close>

theorem one_timer_of_each_kind:
  "length (of_kind k (timers (run dev evs (start t0 c)))) \<le> 1 \<and>
   arms_clean [] (trace (run dev evs (start t0 c)))"
proof -
  have ok: "timers_ok (run dev evs (start t0 c))"
    using sound_reachable [of dev evs t0 c] by (simp add: sound_def)
  then have "length (of_kind k (timers (run dev evs (start t0 c)))) \<le> 1"
    by (cases k) (auto simp: timers_ok_def dest: owns_length)
  with ok show ?thesis by (simp add: timers_ok_def)
qed

theorem one_timer_of_each_kind_witness:
  "timers (run tv [WsOpen 5, PingFires 0 60005 ''192.168.1.20'' False, HealthFires 0 400000,
                  WsClose, ReconnectFires 0 False, WsOpen 400900] (start 0 False)) =
     [\<lparr>kind = PingT, serial = 1, period = 60000\<rparr>,
      \<lparr>kind = HealthT, serial = 1, period = 120000\<rparr>] \<and>
   length (of_kind PingT (timers (run tv [WsOpen 5, PingFires 0 60005 ''192.168.1.20'' False,
                  HealthFires 0 400000, WsClose, ReconnectFires 0 False, WsOpen 400900]
                  (start 0 False)))) \<le> 1 \<and>
   arms_clean [] (trace (run tv [WsOpen 5, PingFires 0 60005 ''192.168.1.20'' False,
                  HealthFires 0 400000, WsClose, ReconnectFires 0 False, WsOpen 400900]
                  (start 0 False)))"
proof -
  have "timers (run tv [WsOpen 5, PingFires 0 60005 ''192.168.1.20'' False, HealthFires 0 400000,
                  WsClose, ReconnectFires 0 False, WsOpen 400900] (start 0 False)) =
     [\<lparr>kind = PingT, serial = 1, period = 60000\<rparr>,
      \<lparr>kind = HealthT, serial = 1, period = 120000\<rparr>]"
    by (simp add: run_simps timer_simps del: filter_neq_without)
  then show ?thesis
    using one_timer_of_each_kind [of PingT tv "[WsOpen 5, PingFires 0 60005 ''192.168.1.20'' False,
                  HealthFires 0 400000, WsClose, ReconnectFires 0 False, WsOpen 400900]" 0 False]
    by simp
qed

subsection \<open>Registration\<close>

lemma posts_simps [simp]:
  "posts [] = 0"
  "posts (es @ fs) = posts es + posts fs"
  "posts (e # es) = (if is_post e then 1 else 0) + posts es"
  "posts (cancel_of v) = 0"
  "posts (close_of w) = 0"
  "posts (post_of dev cabang r) = (if r then 0 else 1)"
  by (simp_all add: posts_def cancel_of_def close_of_def post_of_def split: option.splits)

lemma posts_message [simp]: "posts (message_effects dev now msg opened) = 0"
  by (simp add: message_effects_def command_effects_def split: sum.splits)

lemma scheduleReconnect_registration:
  "isRegistered (scheduleReconnect st) = isRegistered st"
  "pendingPosts (scheduleReconnect st) = pendingPosts st"
  "posts (trace (scheduleReconnect st)) = posts (trace st)"
proof -
  consider (pending) "isReconnecting st"
    | (give_up) "\<not> isReconnecting st" "MAX_RECONNECT_ATTEMPTS \<le> reconnectAttempts st"
    | (schedule) "\<not> isReconnecting st" "reconnectAttempts st < MAX_RECONNECT_ATTEMPTS"
    by linarith
  then have "isRegistered (scheduleReconnect st) = isRegistered st \<and>
             pendingPosts (scheduleReconnect st) = pendingPosts st \<and>
             posts (trace (scheduleReconnect st)) = posts (trace st)"
  proof cases
    case pending
    then show ?thesis by (simp add: scheduleReconnect_pending)
  next
    case give_up
    then show ?thesis by (simp add: scheduleReconnect_exit_eq)
  next
    case schedule
    then show ?thesis by (simp add: scheduleReconnect_arm_eq)
  qed
  then show "isRegistered (scheduleReconnect st) = isRegistered st"
    and "pendingPosts (scheduleReconnect st) = pendingPosts st"
    and "posts (trace (scheduleReconnect st)) = posts (trace st)"
    by simp_all
qed

lemma connect_registration:
  "isRegistered (connect c st) = isRegistered st"
  "posts (trace (connect c st)) = posts (trace st)"
  by (cases c; simp add: connect_eq connect_throw_eq scheduleReconnect_registration)+

lemma step_registration:
  assumes "isRegistered st"
  shows "isRegistered (step dev ev st) \<and> posts (trace (step dev ev st)) = posts (trace st)"
proof (cases ev)
  case (WsOpen now)
  with assms show ?thesis
    by (simp add: step_def on_open_eq split: option.splits)
next
  case (WsMessage now msg)
  with assms show ?thesis
    by (simp add: step_def on_message_eq split: option.splits)
next
  case WsClose
  with assms show ?thesis
    by (simp add: step_def on_close_def scheduleReconnect_registration split: option.splits)
next
  case (PingFires n now addr thr)
  with assms show ?thesis
    by (simp add: step_def ping_tick_def scheduleReconnect_registration emit_def
        split: option.splits)
next
  case (HealthFires n now)
  with assms show ?thesis
    by (simp add: step_def health_tick_def Let_def scheduleReconnect_registration
        terminate_eq split: option.splits)
next
  case (ReconnectFires n c)
  with assms show ?thesis
    by (simp add: step_def reconnect_tick_def connect_registration emit_def
        split: option.splits)
next
  case (PostSettled ok)
  with assms show ?thesis
    by (simp add: step_def registration_settled_def Let_def)
next
  case Signal
  with assms show ?thesis
    by (simp add: step_def on_signal_def process_exit_eq cleanup_eq)
qed (use assms in \<open>simp_all add: step_def on_error_def on_ping_def on_pong_def emit_def
      split: option.splits\<close>)

lemma run_registration:
  "isRegistered st \<Longrightarrow>
   isRegistered (run dev evs st) \<and> posts (trace (run dev evs st)) = posts (trace st)"
proof (induction evs arbitrary: st)
  case Nil
  then show ?case by (simp add: run_def)
next
  case (Cons ev evs)
  have "run dev (ev # evs) st = run dev evs (step dev ev st)"
    by (simp add: run_def)
  with Cons.IH [of "step dev ev st"] step_registration [OF Cons.prems, of dev ev]
  show ?case by simp
qed

lemma registered_only_by_success:
  assumes "\<not> isRegistered st" "isRegistered (step dev ev st)"
  shows "ev = PostSettled True \<and> 0 < pendingPosts st"
proof (cases ev)
  case (WsOpen now)
  with assms show ?thesis
    by (simp add: step_def on_open_eq split: option.splits if_splits)
next
  case (WsMessage now msg)
  with assms show ?thesis
    by (simp add: step_def on_message_eq split: option.splits if_splits)
next
  case WsClose
  with assms show ?thesis
    by (simp add: step_def on_close_def scheduleReconnect_registration
        split: option.splits if_splits)
next
  case (PingFires n now addr thr)
  with assms show ?thesis
    by (simp add: step_def ping_tick_def scheduleReconnect_registration emit_def
        split: option.splits if_splits)
next
  case (HealthFires n now)
  with assms show ?thesis
    by (simp add: step_def health_tick_def Let_def scheduleReconnect_registration
        terminate_eq split: option.splits if_splits)
next
  case (ReconnectFires n c)
  with assms show ?thesis
    by (simp add: step_def reconnect_tick_def connect_registration emit_def
        split: option.splits if_splits)
next
  case (PostSettled ok)
  with assms show ?thesis
    by (simp add: step_def registration_settled_def Let_def split: if_splits)
next
  case Signal
  with assms show ?thesis
    by (simp add: step_def on_signal_def process_exit_eq cleanup_eq split: if_splits)
qed (use assms in \<open>simp_all add: step_def on_error_def on_ping_def on_pong_def emit_def
      split: option.splits if_splits\<close>)

text \<open>
  Claim C7. Once \<open>isRegistered\<close> is set, \<open>registerToServer\<close> returns the state it was
  given, and no sequence of events clears the flag or sends another registration
  request, whatever the number of reconnects. The flag is set by no event but the
  success of a request in flight. A request that fails leaves the flag clear and
  changes nothing but the count of requests in flight, so the socket, the timers and
  the counters stay as they are, and the next \<open>open\<close> sends a new request.
\<close>

theorem registration_confirmed_once:
  "(isRegistered st \<longrightarrow>
      registerToServer dev cabangId st = st \<and>
      isRegistered (run dev evs st) \<and>
      posts (trace (run dev evs st)) = posts (trace st)) \<and>
   (\<not> isRegistered st \<and> isRegistered (step dev ev st) \<longrightarrow>
      ev = PostSettled True \<and> 0 < pendingPosts st) \<and>
   (exited st = None \<and> 0 < pendingPosts st \<longrightarrow>
      step dev (PostSettled False) st = st\<lparr>pendingPosts := pendingPosts st - 1\<rparr> \<and>
      step dev (PostSettled True) st =
        st\<lparr>pendingPosts := pendingPosts st - 1, isRegistered := True\<rparr>) \<and>
   (\<not> isRegistered st \<longrightarrow>
      \<not> isRegistered (registration_settled False st) \<and>
      posts (trace (on_open dev now (registration_settled False st))) = posts (trace st) + 1)"
proof (intro conjI impI)
  assume r: "isRegistered st"
  then show "registerToServer dev cabangId st = st"
    by (simp add: registerToServer_def)
  show "isRegistered (run dev evs st)"
    and "posts (trace (run dev evs st)) = posts (trace st)"
    using run_registration [OF r] by simp_all
next
  assume "\<not> isRegistered st \<and> isRegistered (step dev ev st)"
  then show "ev = PostSettled True" and "0 < pendingPosts st"
    using registered_only_by_success by blast+
next
  assume "exited st = None \<and> 0 < pendingPosts st"
  then show "step dev (PostSettled False) st = st\<lparr>pendingPosts := pendingPosts st - 1\<rparr>"
    and "step dev (PostSettled True) st =
        st\<lparr>pendingPosts := pendingPosts st - 1, isRegistered := True\<rparr>"
    by (simp_all add: step_def registration_settled_def Let_def)
next
  assume n: "\<not> isRegistered st"
  then show "\<not> isRegistered (registration_settled False st)"
    by (simp add: registration_settled_def Let_def)
  show "posts (trace (on_open dev now (registration_settled False st))) = posts (trace st) + 1"
    using n by (simp add: on_open_eq registration_settled_def Let_def)
qed

theorem registration_confirmed_once_witness:
  "isRegistered (run tv [WsOpen 5, PostSettled True] (start 0 False)) \<and>
   isRegistered (run tv [WsClose, ReconnectFires 0 False, WsOpen 9]
                  (run tv [WsOpen 5, PostSettled True] (start 0 False))) \<and>
   posts (trace (run tv [WsClose, ReconnectFires 0 False, WsOpen 9]
                  (run tv [WsOpen 5, PostSettled True] (start 0 False)))) = 1 \<and>
   \<not> isRegistered (run tv [WsOpen 5] (start 0 False)) \<and>
   isRegistered (step tv (PostSettled True) (run tv [WsOpen 5] (start 0 False))) \<and>
   exited (run tv [WsOpen 5] (start 0 False)) = None \<and>
   0 < pendingPosts (run tv [WsOpen 5] (start 0 False)) \<and>
   pendingPosts (step tv (PostSettled False) (run tv [WsOpen 5] (start 0 False))) = 0 \<and>
   posts (trace (on_open tv 9
           (registration_settled False (run tv [WsOpen 5] (start 0 False))))) = 2"
proof -
  let ?S = "run tv [WsOpen 5, PostSettled True] (start 0 False)"
  let ?T = "run tv [WsOpen 5] (start 0 False)"
  have s: "isRegistered ?S" "posts (trace ?S) = 1"
    by (simp_all add: run_simps registration_settled_def)
  have t: "\<not> isRegistered ?T" "exited ?T = None" "pendingPosts ?T = 1" "posts (trace ?T) = 1"
    by (simp_all add: run_simps)
  have u: "isRegistered (step tv (PostSettled True) ?T)"
    using t by (simp add: step_def registration_settled_def Let_def)
  show ?thesis
    using s t u
      registration_confirmed_once [where st = ?S and dev = tv
        and evs = "[WsClose, ReconnectFires 0 False, WsOpen 9]"]
      registration_confirmed_once [where st = ?T and dev = tv and ev = "PostSettled True"
        and now = 9]
    by simp
qed

subsection \<open>The attempt counter\<close>

lemma run_append: "run dev (xs @ ys) st = run dev ys (run dev xs st)"
  by (simp add: run_def)

lemma run_exited: "exited st \<noteq> None \<Longrightarrow> run dev evs st = st"
  unfolding run_def by (induction evs) (simp_all add: step_def)

lemma losing_streak_Suc:
  "losing_streak (Suc n) = losing_streak n @ [WsClose, ReconnectFires n False]"
  by (simp add: losing_streak_def)

lemma lose_once:
  assumes "waiting_to_connect n s" "n < MAX_RECONNECT_ATTEMPTS"
  shows "waiting_to_connect (Suc n) (run dev [WsClose, ReconnectFires n False] s)"
proof -
  let ?c = "s\<lparr>ws := Some (fresh_socket\<lparr>readyState := CLOSED\<rparr>)\<rparr>"
  have a: "step dev WsClose s = scheduleReconnect ?c"
    using assms(1)
    by (simp add: waiting_to_connect_def step_def listening_def fresh_socket_def on_close_def)
  have b: "\<not> isReconnecting ?c" "reconnectAttempts ?c < MAX_RECONNECT_ATTEMPTS"
    using assms by (simp_all add: waiting_to_connect_def)
  let ?t = "next_reconnect ?c"
  have t: "kind ?t = ReconnectT" "serial ?t = n"
    using assms(1) by (simp_all add: next_reconnect_def waiting_to_connect_def)
  have c: "timers (scheduleReconnect ?c) = [?t]"
    "exited (scheduleReconnect ?c) = None"
    "reconnectAttempts (scheduleReconnect ?c) = Suc n"
    "reconnectsArmed (scheduleReconnect ?c) = Suc n"
    "pingTimer (scheduleReconnect ?c) = None"
    "healthCheckInterval (scheduleReconnect ?c) = None"
    using assms(1) by (simp_all add: scheduleReconnect_arm_eq [OF b] waiting_to_connect_def)
  have d: "outstanding ReconnectT n (scheduleReconnect ?c) = Some ?t"
    using c(1) t by (simp add: outstanding_def)
  have "step dev (ReconnectFires n False) (scheduleReconnect ?c) =
          reconnect_tick False
            (emit (Expired ?t)
              ((scheduleReconnect ?c)\<lparr>timers := without (Some ?t) (timers (scheduleReconnect ?c))\<rparr>))"
    using c(2) d by (simp add: step_def)
  then have "waiting_to_connect (Suc n) (step dev (ReconnectFires n False) (scheduleReconnect ?c))"
    using c
    by (simp add: reconnect_tick_def connect_eq emit_def waiting_to_connect_def without_def
        del: filter_neq_without)
  with a show ?thesis by (simp add: run_def)
qed

lemma losing_streak_state:
  "n \<le> MAX_RECONNECT_ATTEMPTS \<Longrightarrow>
   waiting_to_connect n (run dev (losing_streak n) (start t0 False))"
proof (induction n)
  case 0
  show ?case
    by (simp add: losing_streak_def run_def start_def connect_eq init_def
        waiting_to_connect_def)
next
  case (Suc n)
  then have "waiting_to_connect n (run dev (losing_streak n) (start t0 False))"
    and "n < MAX_RECONNECT_ATTEMPTS"
    by simp_all
  then show ?case
    by (simp add: losing_streak_Suc run_append lose_once del: run_def)
qed

lemma scheduleReconnect_gives_up:
  assumes "\<not> isReconnecting st" "MAX_RECONNECT_ATTEMPTS \<le> reconnectAttempts st"
  shows "exited (scheduleReconnect st) = Some 1"
    and "reconnectsArmed (scheduleReconnect st) = reconnectsArmed st"
    and "set (timers (scheduleReconnect st)) \<subseteq> set (timers st)"
    and "WakeUnlock \<in> set (trace (scheduleReconnect st))"
  using assms
  by (auto simp: scheduleReconnect_exit_eq without_def simp del: filter_neq_without)

text \<open>
  Claim C3. In every state the process can reach, the attempt counter is at most
  \<open>MAX_RECONNECT_ATTEMPTS\<close>, and if the process has ended with status 1 then no timer
  is outstanding, the lock file is gone and the socket has lost its listeners and is
  neither open nor connecting. A call of \<open>scheduleReconnect\<close> with none pending adds one
  to the counter while it is below the bound; \<open>open\<close> resets it to zero. At the bound
  the call ends the process with status 1 after the teardown: it arms no timer, it
  releases the wake lock, and no later event changes the state.
\<close>

theorem attempts_bounded_then_terminal:
  "reconnectAttempts (run dev evs (start t0 c)) \<le> MAX_RECONNECT_ATTEMPTS \<and>
   (exited (run dev evs (start t0 c)) = Some 1 \<longrightarrow> torn_down (run dev evs (start t0 c))) \<and>
   (\<not> isReconnecting st \<and> reconnectAttempts st < MAX_RECONNECT_ATTEMPTS \<longrightarrow>
      reconnectAttempts (scheduleReconnect st) = reconnectAttempts st + 1 \<and>
      exited (scheduleReconnect st) = exited st) \<and>
   reconnectAttempts (on_open dev now st) = 0 \<and>
   (\<not> isReconnecting st \<and> MAX_RECONNECT_ATTEMPTS \<le> reconnectAttempts st \<longrightarrow>
      exited (scheduleReconnect st) = Some 1 \<and>
      reconnectsArmed (scheduleReconnect st) = reconnectsArmed st \<and>
      set (timers (scheduleReconnect st)) \<subseteq> set (timers st) \<and>
      WakeUnlock \<in> set (trace (scheduleReconnect st)) \<and>
      run dev evs' (scheduleReconnect st) = scheduleReconnect st)"
proof (intro conjI impI)
  have life: "life_ok (run dev evs (start t0 c))"
    using sound_reachable [of dev evs t0 c] by (simp add: sound_def)
  then show "reconnectAttempts (run dev evs (start t0 c)) \<le> MAX_RECONNECT_ATTEMPTS"
    by (simp add: life_ok_def)
  show "torn_down (run dev evs (start t0 c))"
    if "exited (run dev evs (start t0 c)) = Some 1"
    using life that by (simp add: life_ok_def)
next
  assume h: "\<not> isReconnecting st \<and> reconnectAttempts st < MAX_RECONNECT_ATTEMPTS"
  then show "reconnectAttempts (scheduleReconnect st) = reconnectAttempts st + 1"
    and "exited (scheduleReconnect st) = exited st"
    by (simp_all add: scheduleReconnect_arm_eq)
next
  show "reconnectAttempts (on_open dev now st) = 0"
    by (simp add: on_open_eq)
next
  assume h: "\<not> isReconnecting st \<and> MAX_RECONNECT_ATTEMPTS \<le> reconnectAttempts st"
  then show e: "exited (scheduleReconnect st) = Some 1"
    and "reconnectsArmed (scheduleReconnect st) = reconnectsArmed st"
    and "set (timers (scheduleReconnect st)) \<subseteq> set (timers st)"
    and "WakeUnlock \<in> set (trace (scheduleReconnect st))"
    using scheduleReconnect_gives_up [of st] by simp_all
  show "run dev evs' (scheduleReconnect st) = scheduleReconnect st"
    using e by (simp add: run_exited)
qed

theorem attempts_bounded_then_terminal_witness:
  "reconnectAttempts (run tv (losing_streak 100) (start 0 False)) = 100 \<and>
   \<not> isReconnecting (run tv (losing_streak 100) (start 0 False)) \<and>
   exited (run tv (losing_streak 100) (start 0 False)) = None \<and>
   exited (scheduleReconnect (run tv (losing_streak 100) (start 0 False))) = Some 1 \<and>
   exited (run tv (losing_streak 100 @ [WsClose]) (start 0 False)) = Some 1 \<and>
   torn_down (run tv (losing_streak 100 @ [WsClose]) (start 0 False)) \<and>
   \<not> isReconnecting (start 0 False) \<and>
   reconnectAttempts (scheduleReconnect (start 0 False)) = 1"
proof -
  let ?R = "run tv (losing_streak 100) (start 0 False)"
  have w: "waiting_to_connect 100 ?R"
    by (rule losing_streak_state) (simp add: MAX_RECONNECT_ATTEMPTS_def)
  then have r: "reconnectAttempts ?R = 100" "\<not> isReconnecting ?R" "exited ?R = None"
    "ws ?R = Some fresh_socket"
    by (simp_all add: waiting_to_connect_def)
  let ?c = "?R\<lparr>ws := Some (fresh_socket\<lparr>readyState := CLOSED\<rparr>)\<rparr>"
  have "step tv WsClose ?R = scheduleReconnect ?c"
    using r by (simp add: step_def listening_def fresh_socket_def on_close_def)
  moreover have "exited (scheduleReconnect ?c) = Some 1"
    using r by (intro scheduleReconnect_gives_up) (simp_all add: MAX_RECONNECT_ATTEMPTS_def)
  ultimately have x: "exited (run tv (losing_streak 100 @ [WsClose]) (start 0 False)) = Some 1"
    by (simp add: run_append) (simp add: run_def)
  have m: "MAX_RECONNECT_ATTEMPTS \<le> reconnectAttempts ?R"
    using r by (simp add: MAX_RECONNECT_ATTEMPTS_def)
  have s: "\<not> isReconnecting (start 0 False)"
    "reconnectAttempts (start 0 False) < MAX_RECONNECT_ATTEMPTS"
    "reconnectAttempts (start 0 False) = 0"
    by (simp_all add: start_fresh MAX_RECONNECT_ATTEMPTS_def)
  show ?thesis
    using r x m s
      attempts_bounded_then_terminal [where dev = tv and evs = "losing_streak 100 @ [WsClose]"
        and ?t0.0 = 0 and c = False and st = ?R]
      attempts_bounded_then_terminal [where st = "start 0 False"]
    by simp
qed

subsection \<open>The health check\<close>

lemma none_outstanding: "of_kind k (timers st) = [] \<Longrightarrow> outstanding k n st = None"
  by (auto simp: outstanding_def find_None_iff of_kind_def filter_empty_conv)

lemma other_serial:
  assumes "of_kind k (timers st) = [r]" "serial r \<noteq> n"
  shows "outstanding k n st = None"
proof -
  have "t = r" if "t \<in> set (timers st)" "kind t = k" for t
  proof -
    from that have "t \<in> set (of_kind k (timers st))" by (simp add: of_kind_def)
    with assms(1) show ?thesis by simp
  qed
  with assms(2) show ?thesis
    by (auto simp: outstanding_def find_None_iff)
qed

lemma pending_step:
  assumes "reconnect_pending k armed st" "\<not> fires_reconnect k ev"
  shows "reconnect_pending k armed (step dev ev st)"
proof (cases "exited st = None")
  case False
  with assms(1) show ?thesis by (simp add: step_def)
next
  case live: True
  have snd: "sound st" and cnt: "reconnectsArmed st = armed" and flag: "isReconnecting st"
    using assms(1) live by (simp_all add: reconnect_pending_def)
  obtain r where r: "of_kind ReconnectT (timers st) = [r]" "serial r = k"
    using assms(1) live by (auto simp: reconnect_pending_def)
  have quiet: "not_connecting st" "of_kind PingT (timers st) = []"
    "of_kind HealthT (timers st) = []"
    using snd r by (auto simp: sound_def life_ok_def)
  have snd': "sound (step dev ev st)" using snd by (rule sound_step)
  have keep: "reconnectsArmed (step dev ev st) = armed \<and>
              (exited (step dev ev st) \<noteq> None \<or>
               (isReconnecting (step dev ev st) \<and>
                of_kind ReconnectT (timers (step dev ev st)) = [r]))"
  proof (cases ev)
    case (WsOpen now)
    with quiet(1) show ?thesis
      using cnt flag r live
      by (auto simp: step_def listening_def not_connecting_def split: option.splits if_splits)
  next
    case (WsMessage now msg)
    then show ?thesis
      using cnt flag r live by (auto simp: step_def on_message_eq split: option.splits)
  next
    case WsClose
    then show ?thesis
      using cnt flag r live
      by (auto simp: step_def on_close_def scheduleReconnect_pending split: option.splits)
  next
    case (PingFires n now addr thr)
    then show ?thesis
      using cnt flag r live quiet by (simp add: step_def none_outstanding)
  next
    case (HealthFires n now)
    then show ?thesis
      using cnt flag r live quiet by (simp add: step_def none_outstanding)
  next
    case (ReconnectFires n c)
    with assms(2) have "n \<noteq> k" by simp
    with r have "outstanding ReconnectT n st = None" by (intro other_serial) auto
    with ReconnectFires show ?thesis
      using cnt flag r live by (simp add: step_def)
  next
    case (PostSettled ok)
    then show ?thesis
      using cnt flag r live by (simp add: step_def registration_settled_def Let_def)
  next
    case Signal
    then show ?thesis
      using cnt by (simp add: step_def on_signal_def process_exit_eq cleanup_eq)
  qed (use cnt flag r live in \<open>auto simp: step_def on_error_def on_ping_def on_pong_def
        emit_def split: option.splits\<close>)
  with snd' r(2) show ?thesis
    by (auto simp: reconnect_pending_def)
qed

lemma pending_run:
  assumes "reconnect_pending k armed st" "\<not> list_ex (fires_reconnect k) evs"
  shows "reconnect_pending k armed (run dev evs st)"
  using assms
proof (induction evs arbitrary: st)
  case Nil
  then show ?case by (simp add: run_def)
next
  case (Cons ev evs)
  then have "reconnect_pending k armed (step dev ev st)"
    by (intro pending_step) simp_all
  with Cons show ?case by (simp add: run_def)
qed

lemma list_all_without: "list_all P ts \<Longrightarrow> list_all P (without v ts)"
  by (simp add: without_def list_all_iff del: filter_neq_without)

lemma period_scheduleReconnect:
  assumes "health_period_ok st"
  shows "health_period_ok (scheduleReconnect st)"
proof -
  consider (pending) "isReconnecting st"
    | (give_up) "\<not> isReconnecting st" "MAX_RECONNECT_ATTEMPTS \<le> reconnectAttempts st"
    | (schedule) "\<not> isReconnecting st" "reconnectAttempts st < MAX_RECONNECT_ATTEMPTS"
    by linarith
  then show ?thesis
  proof cases
    case pending
    with assms show ?thesis by (simp add: scheduleReconnect_pending)
  next
    case give_up
    with assms show ?thesis
      by (simp add: scheduleReconnect_exit_eq health_period_ok_def list_all_without)
  next
    case schedule
    with assms show ?thesis
      by (simp add: scheduleReconnect_arm_eq health_period_ok_def list_all_without)
  qed
qed

lemma period_connect: "health_period_ok st \<Longrightarrow> health_period_ok (connect c st)"
proof (cases c)
  case True
  assume "health_period_ok st"
  then have "health_period_ok (st\<lparr>ws := None, trace := trace st @ close_of (ws st)\<rparr>)"
    by (simp add: health_period_ok_def)
  with True show ?thesis by (simp add: connect_throw_eq period_scheduleReconnect)
next
  case False
  assume "health_period_ok st"
  with False show ?thesis by (simp add: connect_eq health_period_ok_def)
qed

lemma period_step:
  assumes "health_period_ok st"
  shows "health_period_ok (step dev ev st)"
proof (cases ev)
  case (WsOpen now)
  with assms show ?thesis
    by (auto simp: step_def on_open_eq health_period_ok_def list_all_without next_health_def
        split: option.splits)
next
  case (WsMessage now msg)
  with assms show ?thesis
    by (auto simp: step_def on_message_eq health_period_ok_def split: option.splits)
next
  case WsClose
  have "health_period_ok (scheduleReconnect (st\<lparr>ws := w\<rparr>))" for w
    using assms by (intro period_scheduleReconnect) (simp add: health_period_ok_def)
  with WsClose assms show ?thesis
    by (auto simp: step_def on_close_def split: option.splits)
next
  case (PingFires n now addr thr)
  have "health_period_ok ((emit (Send (MsgPing (tvId dev) addr now)) st)\<lparr>lastActivityTime := now\<rparr>)"
    using assms by (simp add: health_period_ok_def emit_def)
  with PingFires assms show ?thesis
    by (auto simp: step_def ping_tick_def period_scheduleReconnect split: option.splits)
next
  case (HealthFires n now)
  have "health_period_ok (terminate st)"
    using assms by (simp add: terminate_eq health_period_ok_def)
  with HealthFires assms show ?thesis
    by (auto simp: step_def health_tick_def Let_def period_scheduleReconnect
        split: option.splits)
next
  case (ReconnectFires n c)
  have "health_period_ok ((emit (Expired t) (st\<lparr>timers := without (Some t) (timers st)\<rparr>))
          \<lparr>isReconnecting := False\<rparr>)" for t
    using assms by (simp add: health_period_ok_def emit_def list_all_without)
  with ReconnectFires assms show ?thesis
    by (auto simp: step_def reconnect_tick_def period_connect split: option.splits)
next
  case (PostSettled ok)
  with assms show ?thesis
    by (simp add: step_def registration_settled_def Let_def health_period_ok_def)
next
  case Signal
  with assms show ?thesis
    by (simp add: step_def on_signal_def process_exit_eq cleanup_eq health_period_ok_def
        list_all_without)
qed (use assms in \<open>auto simp: step_def on_error_def on_ping_def on_pong_def emit_def
      health_period_ok_def split: option.splits\<close>)

lemma period_reachable: "health_period_ok (run dev evs (start t0 c))"
proof -
  have "health_period_ok (init t0)" by (simp add: init_def health_period_ok_def)
  then have "health_period_ok (start t0 c)"
    unfolding start_def by (rule period_connect)
  moreover have "health_period_ok s \<Longrightarrow> health_period_ok (run dev evs s)" for s
    unfolding run_def by (induction evs arbitrary: s) (simp_all add: period_step)
  ultimately show ?thesis by simp
qed

lemma outstanding_member:
  "outstanding k n st = Some t \<Longrightarrow> t \<in> set (timers st) \<and> kind t = k \<and> serial t = n"
  by (auto simp: outstanding_def find_Some_iff)

lemma shut_state:
  "readyState (shut s) \<noteq> OPEN" "readyState (shut s) \<noteq> CONNECTING"
  by (simp_all add: shut_def)

lemma set_cancel_of: "CloseSocket \<notin> set (cancel_of v)"
  by (cases v) simp_all

lemma backoff_delay_first: "backoff_delay (Suc 0) = RECONNECT_DELAY_MIN"
  by (simp add: backoff_delay_def RECONNECT_DELAY_MIN_def RECONNECT_DELAY_MAX_def)

lemma life_ok_idle:
  "sound R \<Longrightarrow> of_kind HealthT (timers R) \<noteq> [] \<Longrightarrow>
   \<not> isReconnecting R \<and> reconnectAttempts R = 0"
  by (auto simp: sound_def life_ok_def)

lemma stale_health_tick:
  assumes snd: "sound R" and live: "exited R = None"
    and out: "outstanding HealthT n R = Some h"
    and stale: "PING_INTERVAL * 3 < now - lastActivityTime R"
  shows "\<exists>s. ws (step dev (HealthFires n now) R) = Some s \<and>
             readyState s \<noteq> OPEN \<and> readyState s \<noteq> CONNECTING"
    and "hd (drop (length (trace R)) (trace (step dev (HealthFires n now) R))) = Terminate"
    and "CloseSocket \<notin> set (drop (length (trace R)) (trace (step dev (HealthFires n now) R)))"
    and "timers (step dev (HealthFires n now) R) =
           [\<lparr>kind = ReconnectT, serial = reconnectsArmed R, period = RECONNECT_DELAY_MIN\<rparr>]"
    and "reconnect_pending (reconnectsArmed R) (reconnectsArmed R + 1)
           (step dev (HealthFires n now) R)"
proof -
  have tk: "timers_ok R" and life: "life_ok R" using snd by (simp_all add: sound_def)
  have hne: "of_kind HealthT (timers R) \<noteq> []"
    using out by (rule outstanding_of_kind)
  with life obtain s0 where s0: "ws R = Some s0"
    and idle: "\<not> isReconnecting R" "reconnectAttempts R = 0"
    by (auto simp: life_ok_def)
  from life hne have rnone: "of_kind ReconnectT (timers R) = []"
    by (auto simp: life_ok_def)
  let ?T = "terminate R"
  let ?R' = "step dev (HealthFires n now) R"
  have st: "?R' = scheduleReconnect ?T"
    using live out stale by (simp add: step_def health_tick_def Let_def)
  have Tf: "ws ?T = Some (shut s0)" "trace ?T = trace R @ [Terminate]"
    "timers ?T = timers R" "pingTimer ?T = pingTimer R"
    "healthCheckInterval ?T = healthCheckInterval R" "reconnectTimer ?T = reconnectTimer R"
    "reconnectsArmed ?T = reconnectsArmed R" "reconnectAttempts ?T = 0"
    "\<not> isReconnecting ?T"
    using s0 idle by (simp_all add: terminate_eq)
  have T: "\<not> isReconnecting ?T" "reconnectAttempts ?T < MAX_RECONNECT_ATTEMPTS"
    using Tf by (simp_all add: MAX_RECONNECT_ATTEMPTS_def)
  note eq = scheduleReconnect_arm_eq [OF T]
  let ?rest = "without (reconnectTimer R)
                 (without (healthCheckInterval R) (without (pingTimer R) (timers R)))"
  have "of_kind PingT ?rest = []" "of_kind HealthT ?rest = []" "of_kind ReconnectT ?rest = []"
    using tk rnone
    by (simp_all add: timers_ok_def without_commute [of "healthCheckInterval R"])
  then have rest: "?rest = []" by (rule all_kinds_empty)
  have nr: "next_reconnect ?T =
              \<lparr>kind = ReconnectT, serial = reconnectsArmed R, period = RECONNECT_DELAY_MIN\<rparr>"
    using Tf by (simp add: next_reconnect_def backoff_delay_first)
  show "\<exists>s. ws ?R' = Some s \<and> readyState s \<noteq> OPEN \<and> readyState s \<noteq> CONNECTING"
    by (simp add: st eq Tf shut_state)
  have tr: "drop (length (trace R)) (trace ?R') =
              Terminate # cancel_of (pingTimer R) @ cancel_of (healthCheckInterval R) @
              cancel_of (reconnectTimer R) @ [Arm (next_reconnect ?T)]"
    by (simp add: st eq Tf)
  show "hd (drop (length (trace R)) (trace ?R')) = Terminate"
    by (simp only: tr list.sel)
  show "CloseSocket \<notin> set (drop (length (trace R)) (trace ?R'))"
    by (simp only: tr) (simp add: set_cancel_of)
  show tm: "timers ?R' =
          [\<lparr>kind = ReconnectT, serial = reconnectsArmed R, period = RECONNECT_DELAY_MIN\<rparr>]"
    using rest nr by (simp add: st eq Tf)
  have "sound ?R'" using snd by (rule sound_step)
  moreover have "reconnectsArmed ?R' = reconnectsArmed R + 1" "isReconnecting ?R'"
    by (simp_all add: st eq Tf)
  ultimately show "reconnect_pending (reconnectsArmed R) (reconnectsArmed R + 1) ?R'"
    using tm by (simp add: reconnect_pending_def)
qed

lemma armed_scheduleReconnect: "health_armed (scheduleReconnect st)"
proof -
  consider (pending) "isReconnecting st"
    | (give_up) "\<not> isReconnecting st" "MAX_RECONNECT_ATTEMPTS \<le> reconnectAttempts st"
    | (schedule) "\<not> isReconnecting st" "reconnectAttempts st < MAX_RECONNECT_ATTEMPTS"
    by linarith
  then show ?thesis
  proof cases
    case pending
    then show ?thesis by (simp add: scheduleReconnect_pending health_armed_def)
  next
    case give_up
    then show ?thesis by (simp add: scheduleReconnect_exit_eq health_armed_def)
  next
    case schedule
    then show ?thesis by (simp add: scheduleReconnect_arm_eq health_armed_def)
  qed
qed

lemma armed_connect: "health_armed (connect c st)"
proof (cases c)
  case True
  then show ?thesis by (simp add: connect_throw_eq armed_scheduleReconnect)
next
  case False
  then show ?thesis
    by (simp add: connect_eq health_armed_def not_connecting_def fresh_socket_def)
qed

lemma armed_step:
  assumes "health_armed st"
  shows "health_armed (step dev ev st)"
proof (cases ev)
  case (WsOpen now)
  with assms show ?thesis
    by (auto simp: step_def on_open_eq health_armed_def next_health_def split: option.splits)
next
  case (WsMessage now msg)
  with assms show ?thesis
    by (auto simp: step_def on_message_eq health_armed_def not_connecting_def
        split: option.splits)
next
  case WsClose
  with assms show ?thesis
    by (auto simp: step_def on_close_def armed_scheduleReconnect split: option.splits)
next
  case PeerClosing
  with assms show ?thesis
    by (auto simp: step_def health_armed_def not_connecting_def split: option.splits)
next
  case (PingFires n now addr thr)
  have "health_armed ((emit (Send (MsgPing (tvId dev) addr now)) st)\<lparr>lastActivityTime := now\<rparr>)"
    using assms by (simp add: health_armed_def emit_def not_connecting_def)
  with PingFires assms show ?thesis
    by (auto simp: step_def ping_tick_def armed_scheduleReconnect split: option.splits)
next
  case (HealthFires n now)
  with assms show ?thesis
    by (auto simp: step_def health_tick_def Let_def armed_scheduleReconnect
        split: option.splits)
next
  case (ReconnectFires n c)
  with assms show ?thesis
    by (auto simp: step_def reconnect_tick_def armed_connect split: option.splits)
next
  case (PostSettled ok)
  with assms show ?thesis
    by (simp add: step_def registration_settled_def Let_def health_armed_def
        not_connecting_def)
next
  case Signal
  with assms show ?thesis
    by (simp add: step_def on_signal_def process_exit_eq health_armed_def)
qed (use assms in \<open>auto simp: step_def on_error_def on_ping_def on_pong_def emit_def
      health_armed_def not_connecting_def split: option.splits\<close>)

lemma armed_reachable: "health_armed (run dev evs (start t0 c))"
proof -
  have "health_armed (start t0 c)"
    unfolding start_def by (rule armed_connect)
  moreover have "health_armed s \<Longrightarrow> health_armed (run dev evs s)" for s
    unfolding run_def by (induction evs arbitrary: s) (simp_all add: armed_step)
  ultimately show ?thesis by simp
qed

lemma find_by_kind:
  "find (\<lambda>t. kind t = k \<and> serial t = n) ts = find (\<lambda>t. serial t = n) (of_kind k ts)"
  by (induction ts) (auto simp: of_kind_def)

lemma health_check_runs:
  assumes "exited (run dev evs (start t0 c)) = None"
    and "\<not> isReconnecting (run dev evs (start t0 c))"
    and "ws (run dev evs (start t0 c)) = Some s" and "readyState s \<noteq> CONNECTING"
  shows "\<exists>h. healthCheckInterval (run dev evs (start t0 c)) = Some h \<and>
             of_kind HealthT (timers (run dev evs (start t0 c))) = [h] \<and>
             kind h = HealthT \<and> period h = PING_INTERVAL * 2 \<and>
             outstanding HealthT (serial h) (run dev evs (start t0 c)) = Some h"
proof -
  let ?R = "run dev evs (start t0 c)"
  have "of_kind HealthT (timers ?R) \<noteq> []"
    using armed_reachable [of dev evs t0 c] assms
    by (simp add: health_armed_def not_connecting_def)
  moreover have "owns (healthCheckInterval ?R) (of_kind HealthT (timers ?R))"
    using sound_reachable [of dev evs t0 c] by (simp add: sound_def timers_ok_def)
  ultimately obtain h where h: "healthCheckInterval ?R = Some h"
    "of_kind HealthT (timers ?R) = [h]"
    by (auto simp: owns_def)
  then have "h \<in> set (of_kind HealthT (timers ?R))" by simp
  then have m: "h \<in> set (timers ?R)" "kind h = HealthT" by (simp_all add: of_kind_def)
  then have p: "period h = PING_INTERVAL * 2"
    using period_reachable [of dev evs t0 c] by (auto simp: health_period_ok_def list_all_iff)
  have "find (\<lambda>t. serial t = serial h) (of_kind HealthT (timers ?R)) = Some h"
    using h(2) by simp
  then have "outstanding HealthT (serial h) ?R = Some h"
    by (simp add: outstanding_def find_by_kind)
  with h m p show ?thesis by simp
qed

text \<open>
  Claim C8. In every state the process can reach in which it still runs, no reconnect
  is pending and the socket is past connecting (the connection is open, in
  particular), a health-check timer is outstanding: exactly one, held by
  \<open>healthCheckInterval\<close>, of period \<open>PING_INTERVAL * 2\<close>. Whenever a health-check
  timer is outstanding in a running state, it has that period. When it fires and the connection has been idle for at most
  \<open>PING_INTERVAL * 3\<close>, nothing changes. When it has been idle for longer, the handler
  terminates the socket (it does not close it gracefully), cancels the ping and
  health-check timers and arms one reconnect timer; and until that timer fires,
  whatever else happens, no further reconnect timer is armed.
\<close>

theorem stale_connection_is_terminated:
  "(exited (run dev evs (start t0 c)) = None \<and>
    \<not> isReconnecting (run dev evs (start t0 c)) \<and>
    ws (run dev evs (start t0 c)) = Some s \<and> readyState s \<noteq> CONNECTING \<longrightarrow>
    (\<exists>h. healthCheckInterval (run dev evs (start t0 c)) = Some h \<and>
         of_kind HealthT (timers (run dev evs (start t0 c))) = [h] \<and>
         kind h = HealthT \<and> period h = PING_INTERVAL * 2 \<and>
         outstanding HealthT (serial h) (run dev evs (start t0 c)) = Some h)) \<and>
   (exited (run dev evs (start t0 c)) = None \<and>
    outstanding HealthT n (run dev evs (start t0 c)) = Some h \<longrightarrow>
   (let R = run dev evs (start t0 c); R' = step dev (HealthFires n now) R;
        new = drop (length (trace R)) (trace R')
    in period h = PING_INTERVAL * 2 \<and>
       (now - lastActivityTime R \<le> PING_INTERVAL * 3 \<longrightarrow> R' = R) \<and>
       (PING_INTERVAL * 3 < now - lastActivityTime R \<longrightarrow>
          (\<exists>s. ws R' = Some s \<and> readyState s \<noteq> OPEN \<and> readyState s \<noteq> CONNECTING) \<and>
          hd new = Terminate \<and> CloseSocket \<notin> set new \<and>
          timers R' =
            [\<lparr>kind = ReconnectT, serial = reconnectsArmed R, period = RECONNECT_DELAY_MIN\<rparr>] \<and>
          isReconnecting R' \<and>
          reconnectsArmed R' = reconnectsArmed R + 1 \<and>
          (\<not> list_ex (fires_reconnect (reconnectsArmed R)) evs' \<longrightarrow>
             reconnectsArmed (run dev evs' R') = reconnectsArmed R + 1))))"
proof (intro conjI impI)
  assume "exited (run dev evs (start t0 c)) = None \<and>
    \<not> isReconnecting (run dev evs (start t0 c)) \<and>
    ws (run dev evs (start t0 c)) = Some s \<and> readyState s \<noteq> CONNECTING"
  then show "\<exists>h. healthCheckInterval (run dev evs (start t0 c)) = Some h \<and>
         of_kind HealthT (timers (run dev evs (start t0 c))) = [h] \<and>
         kind h = HealthT \<and> period h = PING_INTERVAL * 2 \<and>
         outstanding HealthT (serial h) (run dev evs (start t0 c)) = Some h"
    using health_check_runs [of dev evs t0 c s] by simp
next
  let ?R = "run dev evs (start t0 c)"
  let ?R' = "step dev (HealthFires n now) ?R"
  assume h: "exited ?R = None \<and> outstanding HealthT n ?R = Some h"
  then have live: "exited ?R = None" and out: "outstanding HealthT n ?R = Some h"
    by simp_all
  have snd: "sound ?R" by (rule sound_reachable)
  have per: "period h = PING_INTERVAL * 2"
    using period_reachable [of dev evs t0 c] outstanding_member [OF out]
    by (auto simp: health_period_ok_def list_all_iff)
  have calm: "?R' = ?R" if "now - lastActivityTime ?R \<le> PING_INTERVAL * 3"
    using that live out by (simp add: step_def health_tick_def Let_def)
  have stale: "(\<exists>s. ws ?R' = Some s \<and> readyState s \<noteq> OPEN \<and> readyState s \<noteq> CONNECTING) \<and>
      hd (drop (length (trace ?R)) (trace ?R')) = Terminate \<and>
      CloseSocket \<notin> set (drop (length (trace ?R)) (trace ?R')) \<and>
      timers ?R' =
        [\<lparr>kind = ReconnectT, serial = reconnectsArmed ?R, period = RECONNECT_DELAY_MIN\<rparr>] \<and>
      isReconnecting ?R' \<and>
      reconnectsArmed ?R' = reconnectsArmed ?R + 1 \<and>
      (\<not> list_ex (fires_reconnect (reconnectsArmed ?R)) evs' \<longrightarrow>
         reconnectsArmed (run dev evs' ?R') = reconnectsArmed ?R + 1)"
    if idle: "PING_INTERVAL * 3 < now - lastActivityTime ?R"
  proof -
    note facts = stale_health_tick [OF snd live out idle, of dev]
    have p: "reconnect_pending (reconnectsArmed ?R) (reconnectsArmed ?R + 1) ?R'"
      by (rule facts(5))
    have q: "\<not> isReconnecting (terminate ?R)"
      "reconnectAttempts (terminate ?R) < MAX_RECONNECT_ATTEMPTS"
      using life_ok_idle [OF snd outstanding_of_kind [OF out]]
      by (simp_all add: terminate_eq MAX_RECONNECT_ATTEMPTS_def)
    have "?R' = scheduleReconnect (terminate ?R)"
      using live out idle by (simp add: step_def health_tick_def Let_def)
    then have live': "exited ?R' = None"
      using live by (simp add: scheduleReconnect_arm_eq [OF q]) (simp add: terminate_eq)
    have "reconnectsArmed (run dev evs' ?R') = reconnectsArmed ?R + 1"
      if "\<not> list_ex (fires_reconnect (reconnectsArmed ?R)) evs'"
      using pending_run [OF p that, of dev] by (simp add: reconnect_pending_def)
    moreover have "isReconnecting ?R'" "reconnectsArmed ?R' = reconnectsArmed ?R + 1"
      using p live' by (simp_all add: reconnect_pending_def)
    ultimately show ?thesis using facts(1-4) by simp
  qed
  show "let R = ?R; R' = step dev (HealthFires n now) R;
            new = drop (length (trace R)) (trace R')
        in period h = PING_INTERVAL * 2 \<and>
           (now - lastActivityTime R \<le> PING_INTERVAL * 3 \<longrightarrow> R' = R) \<and>
           (PING_INTERVAL * 3 < now - lastActivityTime R \<longrightarrow>
              (\<exists>s. ws R' = Some s \<and> readyState s \<noteq> OPEN \<and> readyState s \<noteq> CONNECTING) \<and>
              hd new = Terminate \<and> CloseSocket \<notin> set new \<and>
              timers R' =
                [\<lparr>kind = ReconnectT, serial = reconnectsArmed R,
                  period = RECONNECT_DELAY_MIN\<rparr>] \<and>
              isReconnecting R' \<and>
              reconnectsArmed R' = reconnectsArmed R + 1 \<and>
              (\<not> list_ex (fires_reconnect (reconnectsArmed R)) evs' \<longrightarrow>
                 reconnectsArmed (run dev evs' R') = reconnectsArmed R + 1))"
    unfolding Let_def using per calm stale by blast
qed

theorem stale_connection_is_terminated_witness:
  "exited (run tv [WsOpen 5, WsClose, ReconnectFires 0 False, WsOpen 9] (start 0 False)) = None \<and>
   \<not> isReconnecting (run tv [WsOpen 5, WsClose, ReconnectFires 0 False, WsOpen 9]
                       (start 0 False)) \<and>
   ws (run tv [WsOpen 5, WsClose, ReconnectFires 0 False, WsOpen 9] (start 0 False)) =
     Some \<lparr>readyState = OPEN, listeners = True\<rparr> \<and>
   (\<exists>h. healthCheckInterval (run tv [WsOpen 5, WsClose, ReconnectFires 0 False, WsOpen 9]
                               (start 0 False)) = Some h \<and>
        of_kind HealthT (timers (run tv [WsOpen 5, WsClose, ReconnectFires 0 False, WsOpen 9]
                                  (start 0 False))) = [h] \<and>
        period h = PING_INTERVAL * 2) \<and>
   exited (run tv [WsOpen 5] (start 0 False)) = None \<and>
   outstanding HealthT 0 (run tv [WsOpen 5] (start 0 False)) =
     Some \<lparr>kind = HealthT, serial = 0, period = 120000\<rparr> \<and>
   PING_INTERVAL * 3 < 400000 - lastActivityTime (run tv [WsOpen 5] (start 0 False)) \<and>
   timers (step tv (HealthFires 0 400000) (run tv [WsOpen 5] (start 0 False))) =
     [\<lparr>kind = ReconnectT, serial = 0, period = 5000\<rparr>] \<and>
   \<not> list_ex (fires_reconnect 0) [WsClose, WsOpen 400001, PingFires 0 400002 [] False] \<and>
   reconnectsArmed (run tv [WsClose, WsOpen 400001, PingFires 0 400002 [] False]
     (step tv (HealthFires 0 400000) (run tv [WsOpen 5] (start 0 False)))) = 1 \<and>
   100 - lastActivityTime (run tv [WsOpen 5] (start 0 False)) \<le> PING_INTERVAL * 3 \<and>
   step tv (HealthFires 0 100) (run tv [WsOpen 5] (start 0 False)) =
     run tv [WsOpen 5] (start 0 False)"
proof -
  let ?R = "run tv [WsOpen 5] (start 0 False)"
  let ?S = "run tv [WsOpen 5, WsClose, ReconnectFires 0 False, WsOpen 9] (start 0 False)"
  have r: "exited ?R = None" "lastActivityTime ?R = 5" "reconnectsArmed ?R = 0"
    "outstanding HealthT 0 ?R = Some \<lparr>kind = HealthT, serial = 0, period = 120000\<rparr>"
    by (simp_all add: run_simps outstanding_def)
  have q: "\<not> list_ex (fires_reconnect 0) [WsClose, WsOpen 400001, PingFires 0 400002 [] False]"
    by simp
  have s: "exited ?S = None" "\<not> isReconnecting ?S"
    "ws ?S = Some \<lparr>readyState = OPEN, listeners = True\<rparr>"
    by (simp_all add: run_simps timer_simps del: filter_neq_without)
  have "\<exists>h. healthCheckInterval ?S = Some h \<and> of_kind HealthT (timers ?S) = [h] \<and>
             kind h = HealthT \<and> period h = PING_INTERVAL * 2 \<and>
             outstanding HealthT (serial h) ?S = Some h"
    using s
      stale_connection_is_terminated [where dev = tv
        and evs = "[WsOpen 5, WsClose, ReconnectFires 0 False, WsOpen 9]" and ?t0.0 = 0
        and c = False and s = "\<lparr>readyState = OPEN, listeners = True\<rparr>", THEN conjunct1]
    by simp
  then have again: "\<exists>h. healthCheckInterval ?S = Some h \<and>
                   of_kind HealthT (timers ?S) = [h] \<and> period h = PING_INTERVAL * 2"
    by blast
  have stale: "timers (step tv (HealthFires 0 400000) ?R) =
                 [\<lparr>kind = ReconnectT, serial = 0, period = 5000\<rparr>] \<and>
     reconnectsArmed (run tv [WsClose, WsOpen 400001, PingFires 0 400002 [] False]
       (step tv (HealthFires 0 400000) ?R)) = 1 \<and>
     step tv (HealthFires 0 100) ?R = ?R"
    using r q
      stale_connection_is_terminated [where dev = tv and evs = "[WsOpen 5]" and ?t0.0 = 0
        and c = False and n = 0 and now = 400000
        and evs' = "[WsClose, WsOpen 400001, PingFires 0 400002 [] False]"]
      stale_connection_is_terminated [where dev = tv and evs = "[WsOpen 5]" and ?t0.0 = 0
        and c = False and n = 0 and now = 100]
    by (simp add: Let_def PING_INTERVAL_def RECONNECT_DELAY_MIN_def)
  show ?thesis
    using r q s again stale by (simp add: PING_INTERVAL_def)
qed

subsection \<open>The two variants side by side\<close>




lemma observe_simps [simp]:
  "observe [] = []"
  "observe (e # es) = erase e @ observe es"
  "observe (es @ fs) = observe es @ observe fs"
  by (simp_all add: observe_def)

lemma observe_quiet [simp]:
  "observe (close_of w) = close_of w"
  by (simp add: close_of_def split: option.splits)

lemma observe_post [simp]:
  "observe (post_of dev legacy_cabangId r) = observe (post_of dev cabangId r)"
  by (simp add: post_of_def identity_of_def)

lemma observe_register [simp]:
  "erase (Send (MsgRegister (identity_of dev legacy_cabangId))) =
   erase (Send (MsgRegister (identity_of dev cabangId)))"
  by (simp add: identity_of_def)



lemma health_kind_simps [simp]:
  "health_kind None" "health_kind (Some t) = (kind t = HealthT)"
  by (simp_all add: health_kind_def)

lemma observe_cancel_health [simp]: "health_kind v \<Longrightarrow> observe (cancel_of v) = []"
  by (cases v) simp_all





























end
